theory Spec2Isabelle
  imports Main "HOL-Library.Word"
begin

unbundle bit_operations_syntax

section \<open>The I2C master driver of cpu/stm32l4/periph/i2c.c\<close>

subsection \<open>Registers, header constants and the driver's state\<close>

type_synonym u8 = "8 word"
type_synonym u16 = "16 word"
type_synonym u32 = "32 word"

text \<open>The members of \<^verbatim>\<open>I2C_TypeDef\<close> that the driver touches.\<close>

datatype reg = CR1 | CR2 | OAR1 | TIMINGR | ISR | TXDR | SR1 | SR2 | DR | CCR

text \<open>
  The bit masks come from the vendor's device header and the two direction flags from
  \<^verbatim>\<open>periph/i2c.h\<close>, which are not part of the driver: they are a parameter \<open>h\<close> of
  every operation, indexed by the macro's name.
\<close>

datatype mask =
    I2C_CR1_PE | I2C_CR1_ANFOFF | I2C_CR1_NOSTRETCH | I2C_CR1_SWRST
  | I2C_CR1_START | I2C_CR1_STOP | I2C_CR1_ACK | I2C_CR1_POS
  | I2C_CR2_STOP
  | I2C_SR1_SB | I2C_SR1_ADDR | I2C_SR1_BTF | I2C_SR1_RXNE
  | I2C_SR2_BUSY
  | I2C_ISR_TXE | I2C_ISR_TC
  | I2C_ISR_OVR | I2C_ISR_NACKF | I2C_ISR_ARLO | I2C_ISR_BERR
  | I2C_ISR_PECERR | I2C_ISR_TIMEOUT | I2C_ISR_ALERT
  | I2C_FLAG_READ | I2C_FLAG_WRITE

type_synonym hdr = "mask \<Rightarrow> u32"

text \<open>
  \<^verbatim>\<open>i2c_speed_t\<close>: the two enumerators the driver accepts, and any other enumerator.
\<close>

datatype i2c_speed_t = I2C_SPEED_NORMAL | I2C_SPEED_FAST | I2C_SPEED_OTHER nat

text \<open>
  What the thread does to the controller, in program order. \<open>SetBits r m v\<close> is the
  statement \<^verbatim>\<open>i2c->r |= m\<close> and \<open>ClrBits r m v\<close> is \<^verbatim>\<open>i2c->r &= ~m\<close>, each with the value
  \<open>v\<close> it stored in the register; \<open>Wr\<close> is an assignment,
  \<open>Rd\<close> a read with the value it returned; \<open>BusReset\<close> marks an entry into
  \<^verbatim>\<open>_i2c_reset\<close>, \<open>Ext\<close> a call into another module.
\<close>

datatype action =
    Rd reg u32 | Wr reg u32 | SetBits reg u32 u32 | ClrBits reg u32 u32
  | IrqDisable | IrqRestore bool | BusReset | Ext string

text \<open>
  The driver's state: the register block of the controller addressed by
  \<^verbatim>\<open>i2c_config[dev].dev\<close>, the two file-scope variables, the interrupt-enable state of
  the core, the caller's buffer (\<open>my_data i\<close> is the byte at \<^verbatim>\<open>my_data[i]\<close>; C checks
  no bound), and the bookkeeping of the environment: \<open>tick\<close> counts the moments at
  which the hardware was observed, \<open>nrx\<close> the reads of the data register.
\<close>

record state =
  regs :: "reg \<Rightarrow> u32"
  i2c_bus_error :: int
  i2c_bus_result :: int
  irq_on :: bool
  my_data :: "nat \<Rightarrow> u8"
  tick :: nat
  nrx :: nat
  trace :: "action list"

datatype error = DivisionByZero | UninitialisedRead | SignedOverflow

subsection \<open>Plain register accesses\<close>

definition log :: "action \<Rightarrow> state \<Rightarrow> state" where
  "log a s = s\<lparr>trace := trace s @ [a]\<rparr>"

definition ext :: "string \<Rightarrow> state \<Rightarrow> state" where
  "ext f s = log (Ext f) s"

definition wr :: "reg \<Rightarrow> u32 \<Rightarrow> state \<Rightarrow> state" where
  "wr r v s = log (Wr r v) (s\<lparr>regs := (regs s)(r := v)\<rparr>)"

definition set_bits :: "reg \<Rightarrow> u32 \<Rightarrow> state \<Rightarrow> state" where
  "set_bits r m s =
    log (SetBits r m (regs s r OR m)) (s\<lparr>regs := (regs s)(r := regs s r OR m)\<rparr>)"

definition clr_bits :: "reg \<Rightarrow> u32 \<Rightarrow> state \<Rightarrow> state" where
  "clr_bits r m s =
    log (ClrBits r m (regs s r AND NOT m)) (s\<lparr>regs := (regs s)(r := regs s r AND NOT m)\<rparr>)"

definition rd :: "reg \<Rightarrow> state \<Rightarrow> u32 \<times> state" where
  "rd r s = (regs s r, log (Rd r (regs s r)) s)"

subsection \<open>Bus initializer\<close>

definition NSEC_PER_SEC :: u32 where
  "NSEC_PER_SEC = 1000 * 1000 * 1000"

text \<open>\<^verbatim>\<open>_i2c_init\<close>\<close>

definition i2c_init :: "hdr \<Rightarrow> u32 \<Rightarrow> state \<Rightarrow> state" where
  "i2c_init h timing s =
    (let s = clr_bits CR1 (h I2C_CR1_PE) s;
         s = set_bits CR1 (NOT (h I2C_CR1_ANFOFF)) s;
         s = wr TIMINGR timing s;
         s = clr_bits CR1 (h I2C_CR1_NOSTRETCH) s;
         s = wr OAR1 0 s;
         s = set_bits CR1 (h I2C_CR1_PE) s
     in s)"

text \<open>
  The switch over the speed: the minimum high, low, hold and setup times in
  nanoseconds, or nothing for the \<^verbatim>\<open>default\<close> branch.
\<close>

fun speed_mins :: "i2c_speed_t \<Rightarrow> (u32 \<times> u32 \<times> u32 \<times> u32) option" where
  "speed_mins I2C_SPEED_NORMAL = Some (4000, 4700, 500, 1250)"
| "speed_mins I2C_SPEED_FAST = Some (600, 1300, 375, 500)"
| "speed_mins (I2C_SPEED_OTHER n) = None"

text \<open>
  The four tick counts of one candidate prescaler (\<open>sclh\<close>, \<open>scll\<close>, \<open>sdadel\<close>,
  \<open>scldel\<close>). The three divisions are unsigned 32-bit divisions; a zero divisor is
  undefined in C and an error here.
\<close>

definition tick_counts ::
  "u32 \<Rightarrow> u32 \<times> u32 \<times> u32 \<times> u32 \<Rightarrow> u32 \<Rightarrow> error + (u32 \<times> u32 \<times> u32 \<times> u32)" where
  "tick_counts i2c_clk mins presc =
    (case mins of (i2c_h_min_time, i2c_l_min_time, i2c_hold_time_min, i2c_setup_time_min) \<Rightarrow>
      if presc = 0 then Inl DivisionByZero
      else let t_presc = i2c_clk div presc in
        if t_presc = 0 then Inl DivisionByZero
        else let ns_presc = NSEC_PER_SEC div t_presc in
          if ns_presc = 0 then Inl DivisionByZero
          else Inr (i2c_h_min_time div ns_presc, i2c_l_min_time div ns_presc,
                    i2c_hold_time_min div ns_presc, i2c_setup_time_min div ns_presc))"

text \<open>The test that rejects a candidate; the subtractions wrap around.\<close>

definition out_of_range :: "u32 \<times> u32 \<times> u32 \<times> u32 \<Rightarrow> bool" where
  "out_of_range t =
    (case t of (sclh, scll, sdadel, scldel) \<Rightarrow>
      (sclh - 1) > 255 \<or> (scll - 1) > 255 \<or> sdadel > 15 \<or> (scldel - 1) > 15)"

definition timing_value :: "u32 \<Rightarrow> u32 \<times> u32 \<times> u32 \<times> u32 \<Rightarrow> u32" where
  "timing_value presc t =
    (case t of (sclh, scll, sdadel, scldel) \<Rightarrow>
      push_bit 28 (presc - 1) OR push_bit 20 (scldel - 1) OR push_bit 16 sdadel
        OR push_bit 8 (sclh - 1) OR (scll - 1))"

text \<open>
  The \<^verbatim>\<open>do ... while (presc < 16)\<close> loop from the value \<open>presc\<close> on. It returns the
  final \<open>presc\<close> and \<open>timing\<close>, which stays unassigned when no candidate was accepted.
\<close>

function presc_loop ::
  "u32 \<Rightarrow> u32 \<times> u32 \<times> u32 \<times> u32 \<Rightarrow> u32 \<Rightarrow> error + (u32 \<times> u32 option)" where
  "presc_loop i2c_clk mins presc =
    (case tick_counts i2c_clk mins presc of
       Inl err \<Rightarrow> Inl err
     | Inr t \<Rightarrow>
        if out_of_range t
        then (if presc + 1 < 16 then presc_loop i2c_clk mins (presc + 1)
              else Inr (presc + 1, None))
        else Inr (presc, Some (timing_value presc t)))"
  by pat_completeness auto

termination presc_loop
proof (relation "measure (\<lambda>(c, m, p). unat (15 - p))", goal_cases)
  case 1
  show ?case by simp
next
  case (2 i2c_clk mins presc t)
  have ne: "15 - presc \<noteq> 0"
  proof
    assume "15 - presc = 0"
    then have "presc = 15" by simp
    with 2 show False by simp
  qed
  have "15 - (presc + 1) = (15 - presc) - 1" by simp
  moreover have "unat ((15 - presc) - 1) = unat (15 - presc) - 1"
    using ne by (rule unat_minus_one)
  moreover have "unat (15 - presc) \<noteq> 0"
    using ne by (simp add: unat_eq_0)
  ultimately have "unat (15 - (presc + 1)) < unat (15 - presc)"
    by (simp only: )
  then show ?case by simp
qed

declare presc_loop.simps [simp del]

text \<open>\<^verbatim>\<open>i2c_init_master\<close>, with \<^verbatim>\<open>I2C_NUMOF\<close> and \<^verbatim>\<open>I2C_APBCLK\<close> as parameters.\<close>

definition i2c_init_master ::
  "hdr \<Rightarrow> nat \<Rightarrow> u32 \<Rightarrow> nat \<Rightarrow> i2c_speed_t \<Rightarrow> state \<Rightarrow> error + (int \<times> state)" where
  "i2c_init_master h numof apbclk dev speed s =
    (if dev \<ge> numof then Inr (- 1, s)
     else
      let s = ext ''periph_clk_en'' s;
          s = clr_bits CR1 (h I2C_CR1_PE) s;
          s = ext ''NVIC_SetPriority'' s;
          s = ext ''NVIC_EnableIRQ'' s;
          s = ext ''gpio_init'' s;
          s = ext ''gpio_init_af'' s;
          s = ext ''gpio_init'' s;
          s = ext ''gpio_init_af'' s
      in case speed_mins speed of
           None \<Rightarrow> Inr (- 2, s)
         | Some mins \<Rightarrow>
            (case presc_loop apbclk mins 1 of
               Inl err \<Rightarrow> Inl err
             | Inr (presc, timing) \<Rightarrow>
                if presc \<ge> 16 then Inr (2, s)
                else (case timing of
                        None \<Rightarrow> Inl UninitialisedRead
                      | Some t \<Rightarrow> Inr (0, i2c_init h t s))))"

subsection \<open>The hardware and the peer\<close>

text \<open>
  The registers are volatile. What the hardware does between two accesses of the
  thread is a parameter: at the \<open>k\<close>-th moment the thread looks at the hardware,
  \<open>hw e k\<close> gives the contents of the three status registers, the control bits the
  hardware has cleared by itself in \<open>CR1\<close>, whether the error interrupt is raised, and
  the microsecond timer. \<open>rx e n\<close> is what the \<open>n\<close>-th read of the data register
  returns: the bytes of the peer in the order it issues them.
\<close>

record hw_event =
  ev_SR1 :: u32
  ev_SR2 :: u32
  ev_ISR :: u32
  ev_clr :: u32
  ev_irq :: bool
  ev_usec :: u32

record env =
  hw :: "nat \<Rightarrow> hw_event"
  rx :: "nat \<Rightarrow> u32"

text \<open>
  \<^verbatim>\<open>_i2c_irq\<close>, the body of the error interrupt handlers. It runs in interrupt context:
  its accesses are not part of the thread's trace.
\<close>

definition irq_clr :: "reg \<Rightarrow> u32 \<Rightarrow> state \<Rightarrow> state" where
  "irq_clr r m s = s\<lparr>regs := (regs s)(r := regs s r AND NOT m)\<rparr>"

definition i2c_irq :: "hdr \<Rightarrow> state \<Rightarrow> state" where
  "i2c_irq h s =
    (let st = regs s ISR;
         s = (if st AND h I2C_ISR_OVR \<noteq> 0 then s\<lparr>i2c_bus_error := - 1\<rparr> else s);
         s = (if st AND h I2C_ISR_NACKF \<noteq> 0
              then irq_clr ISR (h I2C_ISR_NACKF) (s\<lparr>i2c_bus_error := - 2\<rparr>) else s);
         s = (if st AND h I2C_ISR_ARLO \<noteq> 0
              then irq_clr ISR (h I2C_ISR_ARLO) (s\<lparr>i2c_bus_error := - 3\<rparr>) else s);
         s = (if st AND h I2C_ISR_BERR \<noteq> 0 then s\<lparr>i2c_bus_error := - 4\<rparr> else s);
         s = (if st AND h I2C_ISR_PECERR \<noteq> 0 then s\<lparr>i2c_bus_error := - 5\<rparr> else s);
         s = (if st AND h I2C_ISR_TIMEOUT \<noteq> 0 then s\<lparr>i2c_bus_error := - 6\<rparr> else s);
         s = (if st AND h I2C_ISR_ALERT \<noteq> 0 then s\<lparr>i2c_bus_error := - 7\<rparr> else s)
     in s)"

text \<open>
  One moment of the hardware: the status registers take their new contents, the
  self-clearing control bits are cleared, and the handler runs if the error interrupt
  is raised while interrupts are enabled.
\<close>

definition sync :: "hdr \<Rightarrow> env \<Rightarrow> state \<Rightarrow> state" where
  "sync h e s =
    (let ev = hw e (tick s);
         s1 = s\<lparr>regs := (regs s)(SR1 := ev_SR1 ev, SR2 := ev_SR2 ev, ISR := ev_ISR ev,
                                  CR1 := regs s CR1 AND NOT (ev_clr ev)),
                tick := Suc (tick s)\<rparr>
     in if ev_irq ev \<and> irq_on s then i2c_irq h s1 else s1)"

text \<open>A read of a status register (or of \<open>CR1\<close> in a polling loop) sees the hardware anew.\<close>

definition rd_hw :: "hdr \<Rightarrow> env \<Rightarrow> reg \<Rightarrow> state \<Rightarrow> u32 \<times> state" where
  "rd_hw h e r s = rd r (sync h e s)"

text \<open>A read of the data register takes the next byte of the peer.\<close>

definition rd_DR :: "env \<Rightarrow> state \<Rightarrow> u32 \<times> state" where
  "rd_DR e s = rd DR (s\<lparr>regs := (regs s)(DR := rx e (nrx s)), nrx := Suc (nrx s)\<rparr>)"

text \<open>The volatile read of \<^verbatim>\<open>i2c_bus_error\<close>.\<close>

definition rd_bus_error :: "hdr \<Rightarrow> env \<Rightarrow> state \<Rightarrow> int \<times> state" where
  "rd_bus_error h e s = (let s = sync h e s in (i2c_bus_error s, s))"

definition xtimer_now_usec :: "hdr \<Rightarrow> env \<Rightarrow> state \<Rightarrow> u32 \<times> state" where
  "xtimer_now_usec h e s = (ev_usec (hw e (tick s)), sync h e s)"

definition irq_disable :: "state \<Rightarrow> bool \<times> state" where
  "irq_disable s = (irq_on s, log IrqDisable (s\<lparr>irq_on := False\<rparr>))"

definition irq_restore :: "bool \<Rightarrow> state \<Rightarrow> state" where
  "irq_restore st s = log (IrqRestore st) (s\<lparr>irq_on := st\<rparr>)"

text \<open>\<^verbatim>\<open>my_data[i] = v\<close>, the value converted to \<^verbatim>\<open>uint8_t\<close>.\<close>

definition store :: "int \<Rightarrow> u32 \<Rightarrow> state \<Rightarrow> state" where
  "store i v s = s\<lparr>my_data := (my_data s)(nat i := ucast v)\<rparr>"

subsection \<open>Polling loops\<close>

text \<open>\<^verbatim>\<open>while (!(i2c->r & m)) {}\<close>\<close>

partial_function (option) wait_set :: "hdr \<Rightarrow> env \<Rightarrow> reg \<Rightarrow> u32 \<Rightarrow> state \<Rightarrow> state option" where
  "wait_set h e r m s =
    (case rd_hw h e r s of (v, s') \<Rightarrow>
      if v AND m \<noteq> 0 then Some s' else wait_set h e r m s')"

text \<open>\<^verbatim>\<open>while (i2c->r & m) {}\<close>\<close>

partial_function (option) wait_clr :: "hdr \<Rightarrow> env \<Rightarrow> reg \<Rightarrow> u32 \<Rightarrow> state \<Rightarrow> state option" where
  "wait_clr h e r m s =
    (case rd_hw h e r s of (v, s') \<Rightarrow>
      if v AND m \<noteq> 0 then wait_clr h e r m s' else Some s')"

subsection \<open>Bus reset and start condition\<close>

text \<open>\<^verbatim>\<open>_i2c_reset\<close>; \<open>ccr\<close> is a \<^verbatim>\<open>uint16_t\<close>.\<close>

definition i2c_reset :: "hdr \<Rightarrow> state \<Rightarrow> state" where
  "i2c_reset h s =
    (let s = log BusReset s;
         (v, s) = rd CCR s;
         ccr = (ucast v :: u16);
         s = set_bits CR1 (h I2C_CR1_SWRST) s;
         s = clr_bits CR1 (h I2C_CR1_SWRST) s
     in i2c_init h (ucast ccr) s)"

text \<open>The body of the bus-busy loop of \<^verbatim>\<open>_start\<close>, and the loop.\<close>

definition busy_body :: "hdr \<Rightarrow> env \<Rightarrow> u32 \<Rightarrow> state \<Rightarrow> state" where
  "busy_body h e time_now s =
    (case xtimer_now_usec h e s of (now, s') \<Rightarrow>
      if now - time_now > 100000 then i2c_reset h s' else s')"

partial_function (option) busy_wait :: "hdr \<Rightarrow> env \<Rightarrow> u32 \<Rightarrow> state \<Rightarrow> state option" where
  "busy_wait h e time_now s =
    (case rd_hw h e SR2 s of (v, s') \<Rightarrow>
      if v AND h I2C_SR2_BUSY \<noteq> 0 then busy_wait h e time_now (busy_body h e time_now s')
      else Some s')"

text \<open>The address-acknowledgment loop of \<^verbatim>\<open>_start\<close>, with its two exits.\<close>

partial_function (option) addr_wait :: "hdr \<Rightarrow> env \<Rightarrow> state \<Rightarrow> (int \<times> state) option" where
  "addr_wait h e s =
    (case rd_hw h e SR1 s of (v, s') \<Rightarrow>
      if v AND h I2C_SR1_ADDR = 0 then
        (case rd_bus_error h e s' of (err, s'') \<Rightarrow>
          if err \<noteq> 0 then Some (- 1, i2c_reset h s'') else addr_wait h e s'')
      else Some (0, s'))"

text \<open>The value written to the data register: \<^verbatim>\<open>(address << 1) | rw_flag\<close>.\<close>

definition addr_byte :: "u8 \<Rightarrow> u8 \<Rightarrow> u32" where
  "addr_byte address rw_flag = push_bit 1 (ucast address) OR ucast rw_flag"

text \<open>\<^verbatim>\<open>_start\<close> up to the write of the address, and \<^verbatim>\<open>_start\<close>.\<close>

definition start_addr :: "hdr \<Rightarrow> env \<Rightarrow> u8 \<Rightarrow> u8 \<Rightarrow> state \<Rightarrow> state option" where
  "start_addr h e address rw_flag s =
    (case xtimer_now_usec h e s of (time_now, s) \<Rightarrow>
      Option.bind (busy_wait h e time_now s) (\<lambda>s.
      Option.bind (wait_set h e SR1 (h I2C_SR1_SB) (set_bits CR1 (h I2C_CR1_START) s)) (\<lambda>s.
        Some (wr DR (addr_byte address rw_flag) (s\<lparr>i2c_bus_error := 0\<rparr>)))))"

definition start :: "hdr \<Rightarrow> env \<Rightarrow> u8 \<Rightarrow> u8 \<Rightarrow> state \<Rightarrow> (int \<times> state) option" where
  "start h e address rw_flag s = Option.bind (start_addr h e address rw_flag s) (addr_wait h e)"

text \<open>\<^verbatim>\<open>_clear_addr\<close>, \<^verbatim>\<open>_write\<close> and \<^verbatim>\<open>_stop\<close>\<close>

definition clear_addr :: "hdr \<Rightarrow> env \<Rightarrow> state \<Rightarrow> state" where
  "clear_addr h e s = snd (rd_hw h e SR2 (snd (rd_hw h e SR1 s)))"

partial_function (option) write_loop ::
  "hdr \<Rightarrow> env \<Rightarrow> (nat \<Rightarrow> u8) \<Rightarrow> int \<Rightarrow> int \<Rightarrow> state \<Rightarrow> state option" where
  "write_loop h e data len i s =
    (if i < len
     then Option.bind (wait_set h e ISR (h I2C_ISR_TXE) (wr TXDR (ucast (data (nat i))) s))
            (\<lambda>s. write_loop h e data len (i + 1) s)
     else Some s)"

definition write_data :: "hdr \<Rightarrow> env \<Rightarrow> (nat \<Rightarrow> u8) \<Rightarrow> int \<Rightarrow> state \<Rightarrow> state option" where
  "write_data h e data len s = write_loop h e data len 0 s"

definition stop :: "hdr \<Rightarrow> env \<Rightarrow> state \<Rightarrow> state option" where
  "stop h e s =
    Option.bind (wait_set h e ISR (h I2C_ISR_TC) s) (\<lambda>s. Some (set_bits CR2 (h I2C_CR2_STOP) s))"

subsection \<open>Transaction engine\<close>

text \<open>\<^verbatim>\<open>i2c_bus_result = _start(i2c, address, flag)\<close>\<close>

definition start_result :: "hdr \<Rightarrow> env \<Rightarrow> u8 \<Rightarrow> mask \<Rightarrow> state \<Rightarrow> (int \<times> state) option" where
  "start_result h e address flag s =
    Option.bind (start h e address (ucast (h flag)) s)
      (\<lambda>(r, s). Some (r, s\<lparr>i2c_bus_result := r\<rparr>))"

text \<open>The three cases of the switch in \<^verbatim>\<open>i2c_read_bytes\<close>, after the start phase.\<close>

definition read_1 :: "hdr \<Rightarrow> env \<Rightarrow> state \<Rightarrow> state option" where
  "read_1 h e s =
    (let s = clr_bits CR1 (h I2C_CR1_ACK) s;
         (st, s) = irq_disable s;
         s = clear_addr h e s;
         s = set_bits CR1 (h I2C_CR1_STOP) s;
         s = irq_restore st s
     in Option.bind (wait_set h e SR1 (h I2C_SR1_RXNE) s) (\<lambda>s.
          let (v, s) = rd_DR e s;
              s = store 0 v s
          in Option.bind (wait_clr h e CR1 (h I2C_CR1_STOP) s) (\<lambda>s.
               Some (set_bits CR1 (h I2C_CR1_ACK) s))))"

definition read_2 :: "hdr \<Rightarrow> env \<Rightarrow> state \<Rightarrow> state option" where
  "read_2 h e s =
    (let s = set_bits CR1 (h I2C_CR1_POS OR h I2C_CR1_ACK) s;
         (st, s) = irq_disable s;
         s = clear_addr h e s;
         s = clr_bits CR1 (h I2C_CR1_ACK) s;
         s = irq_restore st s
     in Option.bind (wait_set h e SR1 (h I2C_SR1_BTF) s) (\<lambda>s.
          let (st, s) = irq_disable s;
              s = set_bits CR1 (h I2C_CR1_STOP) s;
              (v, s) = rd_DR e s;
              s = store 0 v s;
              s = irq_restore st s;
              (v, s) = rd_DR e s;
              s = store 1 v s
          in Option.bind (wait_clr h e CR1 (h I2C_CR1_STOP) s) (\<lambda>s.
               Some (set_bits CR1 (h I2C_CR1_ACK) (clr_bits CR1 (h I2C_CR1_POS) s)))))"

text \<open>\<^verbatim>\<open>while (i < (length - 3))\<close>, with \<open>bound\<close> the value of \<^verbatim>\<open>length - 3\<close>.\<close>

partial_function (option) rx_loop ::
  "hdr \<Rightarrow> env \<Rightarrow> int \<Rightarrow> int \<Rightarrow> state \<Rightarrow> (int \<times> state) option" where
  "rx_loop h e bound i s =
    (if i < bound
     then Option.bind (wait_set h e SR1 (h I2C_SR1_RXNE) s) (\<lambda>s.
            case rd_DR e s of (v, s) \<Rightarrow> rx_loop h e bound (i + 1) (store i v s))
     else Some (i, s))"

text \<open>
  The default case. \<open>len\<close> is a C \<^verbatim>\<open>int\<close>: where \<^verbatim>\<open>length - 3\<close> is not representable
  the behaviour is undefined.
\<close>

definition read_n :: "hdr \<Rightarrow> env \<Rightarrow> int \<Rightarrow> state \<Rightarrow> (error + state) option" where
  "read_n h e len s =
    (let s = clear_addr h e s in
     if len - 3 < - (2 ^ 31) then Some (Inl SignedOverflow)
     else
      Option.bind (rx_loop h e (len - 3) 0 s) (\<lambda>(i, s).
      Option.bind (wait_set h e SR1 (h I2C_SR1_BTF) s) (\<lambda>s.
        let s = clr_bits CR1 (h I2C_CR1_ACK) s;
            (st, s) = irq_disable s;
            (v, s) = rd_DR e s;
            s = store i v s;
            s = set_bits CR1 (h I2C_CR1_STOP) s;
            s = irq_restore st s;
            (v, s) = rd_DR e s;
            s = store (i + 1) v s
        in Option.bind (wait_set h e SR1 (h I2C_SR1_RXNE) s) (\<lambda>s.
             let (v, s) = rd_DR e s;
                 s = store (i + 2) v s
             in Option.bind (wait_clr h e CR1 (h I2C_CR1_STOP) s) (\<lambda>s.
                  Some (Inr (set_bits CR1 (h I2C_CR1_ACK)
                               (clr_bits CR1 (h I2C_CR1_POS) s))))))))"

text \<open>
  \<^verbatim>\<open>i2c_read_bytes\<close>. \<open>None\<close>: the call never returns; \<open>Some (Inl err)\<close>: undefined
  behaviour; \<open>Some (Inr (r, s))\<close>: it returns \<open>r\<close> in state \<open>s\<close>.
\<close>

definition i2c_read_bytes ::
  "hdr \<Rightarrow> env \<Rightarrow> nat \<Rightarrow> nat \<Rightarrow> u8 \<Rightarrow> int \<Rightarrow> state \<Rightarrow> (error + int \<times> state) option" where
  "i2c_read_bytes h e numof dev address len s =
    (if dev \<ge> numof then Some (Inr (- 1, s))
     else if len = 1 then
       Option.bind (start_result h e address I2C_FLAG_READ s) (\<lambda>(r, s).
         if r < 0 then Some (Inr (r, s))
         else Option.bind (read_1 h e s) (\<lambda>s. Some (Inr (len, s))))
     else if len = 2 then
       Option.bind (start_result h e address I2C_FLAG_READ s) (\<lambda>(r, s).
         if r < 0 then Some (Inr (r, s))
         else Option.bind (read_2 h e s) (\<lambda>s. Some (Inr (len, s))))
     else
       Option.bind (start_result h e address I2C_FLAG_READ s) (\<lambda>(r, s).
         if r < 0 then Some (Inr (r, s))
         else Option.bind (read_n h e len s) (\<lambda>x.
                Some (case x of Inl err \<Rightarrow> Inl err | Inr s \<Rightarrow> Inr (len, s)))))"

text \<open>\<^verbatim>\<open>i2c_write_bytes\<close>\<close>

definition i2c_write_bytes ::
  "hdr \<Rightarrow> env \<Rightarrow> nat \<Rightarrow> nat \<Rightarrow> u8 \<Rightarrow> (nat \<Rightarrow> u8) \<Rightarrow> int \<Rightarrow> state \<Rightarrow> (int \<times> state) option" where
  "i2c_write_bytes h e numof dev address data len s =
    (if dev \<ge> numof then Some (- 1, s)
     else
       Option.bind (start_result h e address I2C_FLAG_WRITE s) (\<lambda>(r, s).
         if r < 0 then Some (r, s)
         else Option.bind (write_data h e data len (clear_addr h e s)) (\<lambda>s.
              Option.bind (stop h e s) (\<lambda>s. Some (len, s)))))"

subsection \<open>Notions used in the statements\<close>

text \<open>
  A candidate prescaler fits when its four tick counts exist and pass the range test;
  it is rejected when they exist and fail it.
\<close>

definition presc_ok :: "u32 \<Rightarrow> u32 \<times> u32 \<times> u32 \<times> u32 \<Rightarrow> u32 \<Rightarrow> bool" where
  "presc_ok clk mins p =
    (case tick_counts clk mins p of Inl err \<Rightarrow> False | Inr t \<Rightarrow> \<not> out_of_range t)"

definition presc_rejected :: "u32 \<Rightarrow> u32 \<times> u32 \<times> u32 \<times> u32 \<Rightarrow> u32 \<Rightarrow> bool" where
  "presc_rejected clk mins p =
    (case tick_counts clk mins p of Inl err \<Rightarrow> False | Inr t \<Rightarrow> out_of_range t)"

text \<open>What a polling loop that returned has done: reads of one register, nothing else.\<close>

definition polled :: "reg \<Rightarrow> state \<Rightarrow> state \<Rightarrow> u32 list \<Rightarrow> bool" where
  "polled r s s' vs \<longleftrightarrow>
     my_data s' = my_data s \<and> nrx s' = nrx s \<and> irq_on s' = irq_on s
     \<and> i2c_bus_result s' = i2c_bus_result s \<and> trace s' = trace s @ map (Rd r) vs"

text \<open>What no operation of the start phase changes.\<close>

definition kept :: "state \<Rightarrow> state \<Rightarrow> bool" where
  "kept s s' \<longleftrightarrow>
     my_data s' = my_data s \<and> nrx s' = nrx s \<and> irq_on s' = irq_on s
     \<and> (\<exists>tr. trace s' = trace s @ tr)"

text \<open>The values that the reads of the data register returned, in the order of a trace.\<close>

definition dr_read :: "action \<Rightarrow> u32 list" where
  "dr_read a = (case a of Rd r v \<Rightarrow> if r = DR then [v] else [] | _ \<Rightarrow> [])"

definition dr_reads :: "action list \<Rightarrow> u32 list" where
  "dr_reads tr = concat (map dr_read tr)"

text \<open>A statement of the thread that requests a STOP condition.\<close>

definition asserts_stop :: "hdr \<Rightarrow> action \<Rightarrow> bool" where
  "asserts_stop h a =
    (case a of
       SetBits r m v \<Rightarrow> r = CR1 \<and> m AND h I2C_CR1_STOP \<noteq> 0
     | Wr r v \<Rightarrow> r = CR1 \<and> v AND h I2C_CR1_STOP \<noteq> 0
     | _ \<Rightarrow> False)"

text \<open>The number of bus resets in a trace.\<close>

definition resets :: "action list \<Rightarrow> nat" where
  "resets tr = length (filter (\<lambda>a. a = BusReset) tr)"



text \<open>
  A stretch of a trace in which no STOP condition is requested, and a step of the
  driver that requests one only if it resets the bus.
\<close>

definition quiet :: "hdr \<Rightarrow> action list \<Rightarrow> bool" where
  "quiet h tr \<longleftrightarrow> (\<forall>a\<in>set tr. \<not> asserts_stop h a)"

definition calm :: "hdr \<Rightarrow> state \<Rightarrow> state \<Rightarrow> bool" where
  "calm h s s' \<longleftrightarrow> (\<exists>tr. trace s' = trace s @ tr \<and> (resets tr = 0 \<longrightarrow> quiet h tr))"

text \<open>
  A responsive peer and controller: from any moment on, the status flag is shown again
  at some later moment; likewise the hardware clears the STOP request.
\<close>

definition raises :: "hdr \<Rightarrow> env \<Rightarrow> mask \<Rightarrow> bool" where
  "raises h e flag \<longleftrightarrow> (\<forall>k. \<exists>j. ev_SR1 (hw e (k + j)) AND h flag \<noteq> 0)"

definition completes_stop :: "hdr \<Rightarrow> env \<Rightarrow> bool" where
  "completes_stop h e \<longleftrightarrow> (\<forall>k. \<exists>j. h I2C_CR1_STOP AND NOT (ev_clr (hw e (k + j))) = 0)"

text \<open>One pass through the bus-busy loop that finds the bus busy: the test and the body.\<close>

definition busy_iter :: "hdr \<Rightarrow> env \<Rightarrow> u32 \<Rightarrow> state \<Rightarrow> state" where
  "busy_iter h e time_now s = busy_body h e time_now (snd (rd_hw h e SR2 s))"

text \<open>The fault bits in the order the handler tests them, with the codes the spec gives.\<close>

definition fault_codes :: "(mask \<times> int) list" where
  "fault_codes =
    [(I2C_ISR_OVR, - 1), (I2C_ISR_NACKF, - 2), (I2C_ISR_ARLO, - 3), (I2C_ISR_BERR, - 4),
     (I2C_ISR_PECERR, - 5), (I2C_ISR_TIMEOUT, - 6), (I2C_ISR_ALERT, - 7)]"

subsection \<open>Concrete instances\<close>

text \<open>
  One assignment of the header constants (the vendor's values for the two register
  layouts whose names the driver uses) and a quiescent state.
\<close>

fun stm32_hdr :: hdr where
  "stm32_hdr I2C_CR1_PE = 0x1"
| "stm32_hdr I2C_CR1_ANFOFF = 0x1000"
| "stm32_hdr I2C_CR1_NOSTRETCH = 0x20000"
| "stm32_hdr I2C_CR1_SWRST = 0x8000"
| "stm32_hdr I2C_CR1_START = 0x100"
| "stm32_hdr I2C_CR1_STOP = 0x200"
| "stm32_hdr I2C_CR1_ACK = 0x400"
| "stm32_hdr I2C_CR1_POS = 0x800"
| "stm32_hdr I2C_CR2_STOP = 0x4000"
| "stm32_hdr I2C_SR1_SB = 0x1"
| "stm32_hdr I2C_SR1_ADDR = 0x2"
| "stm32_hdr I2C_SR1_BTF = 0x4"
| "stm32_hdr I2C_SR1_RXNE = 0x40"
| "stm32_hdr I2C_SR2_BUSY = 0x2"
| "stm32_hdr I2C_ISR_TXE = 0x1"
| "stm32_hdr I2C_ISR_TC = 0x40"
| "stm32_hdr I2C_ISR_OVR = 0x400"
| "stm32_hdr I2C_ISR_NACKF = 0x10"
| "stm32_hdr I2C_ISR_ARLO = 0x200"
| "stm32_hdr I2C_ISR_BERR = 0x100"
| "stm32_hdr I2C_ISR_PECERR = 0x800"
| "stm32_hdr I2C_ISR_TIMEOUT = 0x1000"
| "stm32_hdr I2C_ISR_ALERT = 0x2000"
| "stm32_hdr I2C_FLAG_READ = 0x1"
| "stm32_hdr I2C_FLAG_WRITE = 0x0"

definition idle :: state where
  "idle = \<lparr>regs = (\<lambda>r. 0), i2c_bus_error = 0, i2c_bus_result = 0, irq_on = True,
           my_data = (\<lambda>i. 0), tick = 0, nrx = 0, trace = []\<rparr>"

text \<open>
  Hardware that shows every awaited flag at once, with a peer that sends 0, 1, 2, ...
\<close>

definition ready_env :: env where
  "ready_env = \<lparr>hw = (\<lambda>k. \<lparr>ev_SR1 = 0x47, ev_SR2 = 0, ev_ISR = 0x41, ev_clr = 0x300,
                              ev_irq = False, ev_usec = 0\<rparr>),
                 rx = (\<lambda>n. of_nat n)\<rparr>"

text \<open>
  Hardware on which the address is never acknowledged and the error interrupt reports
  a NACK from the third moment on.
\<close>

definition nack_env :: env where
  "nack_env = \<lparr>hw = (\<lambda>k. \<lparr>ev_SR1 = 0x1, ev_SR2 = 0, ev_ISR = 0x10, ev_clr = 0x300,
                             ev_irq = (3 \<le> k), ev_usec = 0\<rparr>),
                rx = (\<lambda>n. 0)\<rparr>"

text \<open>Hardware whose bus stays busy, with 30 ms between two moments.\<close>

definition busy_env :: env where
  "busy_env = \<lparr>hw = (\<lambda>k. \<lparr>ev_SR1 = 0, ev_SR2 = 0x2, ev_ISR = 0, ev_clr = 0,
                             ev_irq = False, ev_usec = 30000 * of_nat k\<rparr>),
                rx = (\<lambda>n. 0)\<rparr>"

text \<open>
  Hardware that acknowledges the address at once and raises the error interrupt, with
  the overrun and SMBus-alert bits, at the very moment of the address poll.
\<close>

definition alert_env :: env where
  "alert_env = \<lparr>hw = (\<lambda>k. \<lparr>ev_SR1 = 0x3, ev_SR2 = 0, ev_ISR = (if k = 3 then 0x2400 else 0),
                              ev_clr = 0x300, ev_irq = (k = 3), ev_usec = 0\<rparr>),
                 rx = (\<lambda>n. 0)\<rparr>"


section \<open>Bus initializer: the prescaler search\<close>

lemma presc_loop_rejected:
  "presc_rejected clk mins p \<Longrightarrow>
   presc_loop clk mins p =
     (if p + 1 < 16 then presc_loop clk mins (p + 1) else Inr (p + 1, None))"
  by (subst presc_loop.simps) (auto simp: presc_rejected_def split: sum.splits)

lemma presc_loop_ok:
  "tick_counts clk mins p = Inr t \<Longrightarrow> \<not> out_of_range t \<Longrightarrow>
   presc_loop clk mins p = Inr (p, Some (timing_value p t))"
  by (subst presc_loop.simps) simp

lemma presc_loop_exhausted:
  assumes "\<forall>p\<in>{1..15}. presc_rejected clk mins p"
  shows "presc_loop clk mins 1 = Inr (16, None)"
proof -
  have r: "presc_rejected clk mins 1" "presc_rejected clk mins 2" "presc_rejected clk mins 3"
    "presc_rejected clk mins 4" "presc_rejected clk mins 5" "presc_rejected clk mins 6"
    "presc_rejected clk mins 7" "presc_rejected clk mins 8" "presc_rejected clk mins 9"
    "presc_rejected clk mins 10" "presc_rejected clk mins 11" "presc_rejected clk mins 12"
    "presc_rejected clk mins 13" "presc_rejected clk mins 14" "presc_rejected clk mins 15"
    using assms by simp_all
  show ?thesis by (simp add: presc_loop_rejected r)
qed

lemma word_pred_le_16:
  fixes x :: u32
  assumes "\<not> (x - 1 > 15)"
  shows "x \<noteq> 0 \<and> unat x \<le> 16"
proof (cases "x = 0")
  case True
  with assms show ?thesis by simp
next
  case False
  then have "unat (x - 1) = unat x - 1" by (rule unat_minus_one)
  moreover from assms have "unat (x - 1) \<le> 15"
    by (simp add: word_le_nat_alt not_less)
  ultimately show ?thesis using False by simp
qed

lemma ns_lower_bound:
  fixes S NS :: nat
  assumes "S div NS \<le> 16" "500 \<le> S" "0 < NS"
  shows "30 \<le> NS"
proof (rule ccontr)
  assume "\<not> 30 \<le> NS"
  then have "NS \<le> 29" by simp
  with \<open>0 < NS\<close> have "S div 29 \<le> S div NS" by (rule div_le_mono2)
  moreover have "500 div 29 \<le> S div 29" using \<open>500 \<le> S\<close> by (rule div_le_mono)
  ultimately show False using assms(1) by simp
qed

lemma clk_upper_bound:
  fixes C P T :: nat
  assumes "30 \<le> 1000000000 div (C div P)" "0 < P" "P \<le> 15"
  shows "C < 500000010"
proof -
  let ?T = "C div P"
  have "?T \<le> 33333333"
  proof (rule ccontr)
    assume "\<not> ?T \<le> 33333333"
    then have "33333334 \<le> ?T" by simp
    then have "1000000000 div ?T \<le> 1000000000 div 33333334"
      by (intro div_le_mono2) simp_all
    with assms(1) show False by simp
  qed
  moreover have "C < P + P * ?T" using \<open>0 < P\<close> by (rule dividend_less_times_div)
  moreover have "P * ?T \<le> 15 * 33333333"
    using \<open>P \<le> 15\<close> \<open>?T \<le> 33333333\<close> by (rule mult_le_mono)
  ultimately show ?thesis using \<open>P \<le> 15\<close> by simp
qed

lemma tick_counts_defined_below:
  assumes sp: "speed_mins speed = Some mins"
    and ok: "presc_ok clk mins p"
    and p15: "p \<le> 15" and q1: "1 \<le> q" and qp: "q < p"
  shows "\<exists>t. tick_counts clk mins q = Inr t"
proof -
  obtain hm lm hd sm where mins: "mins = (hm, lm, hd, sm)" by (cases mins)
  from sp mins have sm: "500 \<le> unat sm"
    by (cases speed) auto
  let ?C = "unat clk" and ?P = "unat p" and ?Q = "unat q"
  from q1 have Q0: "0 < ?Q" by (simp add: word_le_nat_alt)
  from qp have QP: "?Q < ?P" by (simp add: word_less_nat_alt)
  from p15 have P15: "?P \<le> 15" by (simp add: word_le_nat_alt)
  from ok mins have p0: "p \<noteq> 0" and t0: "clk div p \<noteq> 0"
    and n0: "NSEC_PER_SEC div (clk div p) \<noteq> 0"
    and rng: "\<not> (sm div (NSEC_PER_SEC div (clk div p)) - 1 > 15)"
    by (auto simp: presc_ok_def tick_counts_def Let_def out_of_range_def split: if_splits)
  have uN: "unat NSEC_PER_SEC = 1000000000" by (simp add: NSEC_PER_SEC_def)
  have uT: "unat (clk div p) = ?C div ?P" by (simp add: unat_div)
  have uNS: "unat (NSEC_PER_SEC div (clk div p)) = 1000000000 div (?C div ?P)"
    by (simp add: unat_div uN)
  from n0 have NS0: "0 < 1000000000 div (?C div ?P)"
    using uNS by (simp add: unat_eq_0 [symmetric])
  from word_pred_le_16 [OF rng]
  have "unat (sm div (NSEC_PER_SEC div (clk div p))) \<le> 16" by simp
  then have "unat sm div (1000000000 div (?C div ?P)) \<le> 16"
    by (simp add: unat_div uN)
  from ns_lower_bound [OF this sm NS0] have "30 \<le> 1000000000 div (?C div ?P)" .
  from clk_upper_bound [OF this _ P15] Q0 QP have C: "?C < 500000010" by simp
  from t0 have "0 < ?C div ?P" using uT by (simp add: unat_eq_0 [symmetric])
  moreover have "?C div ?P \<le> ?C div ?Q" using Q0 QP by (intro div_le_mono2) simp_all
  ultimately have TQ0: "0 < ?C div ?Q" by simp
  have "?C div ?Q \<le> ?C" by (rule div_le_dividend)
  from le_less_trans [OF this C] have "?C div ?Q \<le> 1000000000" by simp
  with TQ0 have NQ0: "0 < 1000000000 div (?C div ?Q)" by (simp add: div_greater_zero_iff)
  have q0: "q \<noteq> 0" using Q0 by auto
  have tq: "clk div q \<noteq> 0"
    using TQ0 by (simp add: unat_eq_0 [symmetric] unat_div)
  have nq: "NSEC_PER_SEC div (clk div q) \<noteq> 0"
    using NQ0 by (simp add: unat_eq_0 [symmetric] unat_div uN)
  show ?thesis using q0 tq nq mins by (simp add: tick_counts_def Let_def)
qed

lemma presc_loop_scan:
  assumes "unat p - unat q = n" "q \<le> p" "p \<le> 15"
    and "\<forall>r. q \<le> r \<and> r < p \<longrightarrow> presc_rejected clk mins r"
  shows "presc_loop clk mins q = presc_loop clk mins p"
  using assms
proof (induction n arbitrary: q)
  case 0
  then have "q = p" by (simp add: word_le_nat_alt word_unat_eq_iff)
  then show ?case by simp
next
  case (Suc n)
  then have qp: "q < p" by (simp add: word_less_nat_alt)
  with Suc.prems have rej: "presc_rejected clk mins q" by simp
  from qp have q1: "q + 1 \<le> p" by (rule inc_le)
  have "unat q + unat (1::u32) < 2 ^ LENGTH(32)"
    using qp unsigned_less [of p, where 'a = nat] by (simp add: word_less_nat_alt)
  then have "unat (q + 1) = unat q + unat (1::u32)"
    by (rule unat_add_lem [THEN iffD1])
  then have uq: "unat (q + 1) = unat q + 1" by simp
  from q1 \<open>p \<le> 15\<close> have lt: "q + 1 < 16" by (simp add: word_le_nat_alt word_less_nat_alt)
  have "presc_loop clk mins q = presc_loop clk mins (q + 1)"
    using presc_loop_rejected [OF rej] lt by simp
  also have "\<dots> = presc_loop clk mins p"
  proof (rule Suc.IH)
    show "unat p - unat (q + 1) = n" using Suc.prems(1) uq by simp
    show "q + 1 \<le> p" by (rule q1)
    show "p \<le> 15" by fact
    show "\<forall>r. q + 1 \<le> r \<and> r < p \<longrightarrow> presc_rejected clk mins r"
    proof (intro allI impI)
      fix r assume "q + 1 \<le> r \<and> r < p"
      then have "q \<le> r \<and> r < p" using uq by (simp add: word_le_nat_alt)
      with Suc.prems show "presc_rejected clk mins r" by simp
    qed
  qed
  finally show ?case .
qed

lemmas reg_ops = log_def ext_def wr_def set_bits_def clr_bits_def rd_def

lemma i2c_init_TIMINGR: "regs (i2c_init h t s) TIMINGR = t"
  by (simp add: i2c_init_def reg_ops Let_def)

section \<open>Bus reset\<close>

text \<open>
  C2: the claim is that the bus reset leaves the timing register with the value it held
  before. The code does not do so: \<^verbatim>\<open>_i2c_reset\<close> saves the register \<open>CCR\<close>, in a
  16-bit variable, and hands that to \<^verbatim>\<open>_i2c_init\<close>, which stores it in \<open>TIMINGR\<close>. After
  the reset the timing register holds the low half of \<open>CCR\<close>, whatever it held before;
  even with \<open>CCR\<close> equal to the timing value \<open>0x00941F24\<close>, the prescaler, setup and
  hold fields are lost.
\<close>

theorem reset_loads_ccr:
  "regs (i2c_reset h s) TIMINGR = ucast (ucast (regs s CCR) :: u16)
   \<and> regs (i2c_reset h (idle\<lparr>regs := (regs idle)(TIMINGR := 0x941F24, CCR := 0x941F24)\<rparr>)) TIMINGR
       = 0x1F24"
  by (simp add: i2c_reset_def i2c_init_TIMINGR reg_ops Let_def idle_def)

section \<open>Bus initializer: results\<close>

text \<open>
  C3: when every prescaler from 1 to 15 is rejected, \<^verbatim>\<open>i2c_init_master\<close> leaves the
  timing register as it was, as the claim says, but the status it returns is the
  positive value 2, not a negative one.
\<close>

theorem init_master_exhausted:
  assumes "dev < numof" and "speed_mins speed = Some mins"
    and "\<forall>p\<in>{1..15}. presc_rejected clk mins p"
  shows "\<exists>s'. i2c_init_master h numof clk dev speed s = Inr (2, s')
              \<and> regs s' TIMINGR = regs s TIMINGR"
  using assms(1,2) presc_loop_exhausted [OF assms(3)]
  by (simp add: i2c_init_master_def reg_ops Let_def)

lemma u32_interval_1_15:
  fixes p :: u32
  assumes "p \<in> {1..15}"
  shows "p \<in> {1,2,3,4,5,6,7,8,9,10,11,12,13,14,15}"
proof -
  from assms have "1 \<le> unat p" "unat p \<le> 15" by (simp_all add: word_le_nat_alt)
  then have "unat p \<in> {1,2,3,4,5,6,7,8,9,10,11,12,13,14,15}" by (auto; arith)
  then show ?thesis by (auto simp: word_unat_eq_iff)
qed

theorem init_master_exhausted_witness:
  "\<exists>s'. i2c_init_master stm32_hdr 1 100000 0 I2C_SPEED_NORMAL idle = Inr (2, s')
        \<and> regs s' TIMINGR = regs idle TIMINGR"
proof -
  have "\<forall>p\<in>{1..15}. presc_rejected 100000 (4000, 4700, 500, 1250) p"
  proof
    fix p :: u32 assume "p \<in> {1..15}"
    then have "p \<in> {1,2,3,4,5,6,7,8,9,10,11,12,13,14,15}" by (rule u32_interval_1_15)
    then show "presc_rejected 100000 (4000, 4700, 500, 1250) p"
      by (auto simp: presc_rejected_def tick_counts_def out_of_range_def NSEC_PER_SEC_def Let_def)
  qed
  from init_master_exhausted [OF _ _ this, of 0 1 I2C_SPEED_NORMAL stm32_hdr idle]
  show ?thesis by simp
qed

text \<open>
  C4: for a valid bus, a valid speed and a peripheral clock for which some prescaler
  \<open>p\<close> from 1 to 15 fits, \<open>p\<close> being the smallest one, the search stops at \<open>p\<close>,
  \<^verbatim>\<open>i2c_init_master\<close> returns 0 and the timing register holds the value packed from
  \<open>p\<close> and its tick counts. At 8 MHz and normal speed the prescaler is 1, with the tick
  counts 32, 37, 4 and 10.
\<close>

theorem init_master_first_fit:
  assumes dev: "dev < numof" and sp: "speed_mins speed = Some mins"
    and p: "p \<in> {1..15}" and t: "tick_counts clk mins p = Inr t" and ok: "\<not> out_of_range t"
    and least: "\<forall>q. 1 \<le> q \<and> q < p \<longrightarrow> \<not> presc_ok clk mins q"
  shows "presc_loop clk mins 1 = Inr (p, Some (timing_value p t))
       \<and> (\<exists>s'. i2c_init_master h numof clk dev speed s = Inr (0, s')
               \<and> regs s' TIMINGR = timing_value p t)
       \<and> (\<exists>s'. i2c_init_master h numof 8000000 dev I2C_SPEED_NORMAL s = Inr (0, s')
               \<and> regs s' TIMINGR = timing_value 1 (32, 37, 4, 10))"
proof -
  from t ok have pok: "presc_ok clk mins p" by (simp add: presc_ok_def)
  from p have p1: "1 \<le> p" and p15: "p \<le> 15" by simp_all
  have rej: "\<forall>r. 1 \<le> r \<and> r < p \<longrightarrow> presc_rejected clk mins r"
  proof (intro allI impI)
    fix r assume r: "1 \<le> r \<and> r < p"
    with tick_counts_defined_below [OF sp pok p15] obtain u where "tick_counts clk mins r = Inr u"
      by blast
    moreover from least r have "\<not> presc_ok clk mins r" by simp
    ultimately show "presc_rejected clk mins r" by (simp add: presc_ok_def presc_rejected_def)
  qed
  have "presc_loop clk mins 1 = presc_loop clk mins p"
    using presc_loop_scan [OF refl p1 p15 rej] .
  also have "\<dots> = Inr (p, Some (timing_value p t))" using t ok by (rule presc_loop_ok)
  finally have loop: "presc_loop clk mins 1 = Inr (p, Some (timing_value p t))" .
  from p15 have "\<not> 16 \<le> p" by (simp add: word_le_nat_alt)
  with loop dev sp have gen: "\<exists>s'. i2c_init_master h numof clk dev speed s = Inr (0, s')
               \<and> regs s' TIMINGR = timing_value p t"
    by (simp add: i2c_init_master_def Let_def i2c_init_TIMINGR)
  have "presc_loop 8000000 (4000, 4700, 500, 1250) 1 = Inr (1, Some (timing_value 1 (32, 37, 4, 10)))"
    by (rule presc_loop_ok) (simp_all add: tick_counts_def out_of_range_def NSEC_PER_SEC_def Let_def)
  with dev have "\<exists>s'. i2c_init_master h numof 8000000 dev I2C_SPEED_NORMAL s = Inr (0, s')
               \<and> regs s' TIMINGR = timing_value 1 (32, 37, 4, 10)"
    by (simp add: i2c_init_master_def Let_def i2c_init_TIMINGR word_le_nat_alt)
  with loop gen show ?thesis by simp
qed

lemma u32_below_6:
  fixes q :: u32
  assumes "1 \<le> q \<and> q < 6"
  shows "q \<in> {1,2,3,4,5}"
proof -
  from assms have "1 \<le> unat q" "unat q < 6" by (simp_all add: word_le_nat_alt word_less_nat_alt)
  then have "unat q \<in> {1,2,3,4,5}" by (auto; arith)
  then show ?thesis by (auto simp: word_unat_eq_iff)
qed

theorem init_master_first_fit_witness:
  "presc_loop 80000000 (4000, 4700, 500, 1250) 1 = Inr (6, Some 0x50F6343D)
   \<and> (\<exists>s'. i2c_init_master stm32_hdr 1 80000000 0 I2C_SPEED_NORMAL idle = Inr (0, s')
           \<and> regs s' TIMINGR = 0x50F6343D)
   \<and> (\<exists>s'. i2c_init_master stm32_hdr 1 8000000 0 I2C_SPEED_NORMAL idle = Inr (0, s')
           \<and> regs s' TIMINGR = 0x00941F24)"
proof -
  have t: "tick_counts 80000000 (4000, 4700, 500, 1250) 6 = Inr (53, 62, 6, 16)"
    by (simp add: tick_counts_def NSEC_PER_SEC_def Let_def)
  have ok: "\<not> out_of_range (53, 62, 6, 16 :: u32)" by (simp add: out_of_range_def)
  have least: "\<forall>q. 1 \<le> q \<and> q < 6 \<longrightarrow> \<not> presc_ok 80000000 (4000, 4700, 500, 1250) q"
  proof (intro allI impI)
    fix q :: u32 assume "1 \<le> q \<and> q < 6"
    then have "q \<in> {1,2,3,4,5}" by (rule u32_below_6)
    then show "\<not> presc_ok 80000000 (4000, 4700, 500, 1250) q"
      by (auto simp: presc_ok_def tick_counts_def out_of_range_def NSEC_PER_SEC_def Let_def)
  qed
  from init_master_first_fit [OF _ _ _ t ok least, of 0 1 I2C_SPEED_NORMAL stm32_hdr idle]
  show ?thesis by (simp add: timing_value_def)
qed

section \<open>Polling loops\<close>

lemma irq_frame [simp]:
  "my_data (i2c_irq h s) = my_data s"
  "nrx (i2c_irq h s) = nrx s"
  "irq_on (i2c_irq h s) = irq_on s"
  "i2c_bus_result (i2c_irq h s) = i2c_bus_result s"
  "tick (i2c_irq h s) = tick s"
  "trace (i2c_irq h s) = trace s"
  by (simp_all add: i2c_irq_def irq_clr_def Let_def)

lemma irq_regs [simp]: "r \<noteq> ISR \<Longrightarrow> regs (i2c_irq h s) r = regs s r"
  by (simp add: i2c_irq_def irq_clr_def Let_def)

lemma sync_frame [simp]:
  "my_data (sync h e s) = my_data s"
  "nrx (sync h e s) = nrx s"
  "irq_on (sync h e s) = irq_on s"
  "i2c_bus_result (sync h e s) = i2c_bus_result s"
  "tick (sync h e s) = Suc (tick s)"
  "trace (sync h e s) = trace s"
  by (simp_all add: sync_def Let_def)

lemma sync_regs [simp]:
  "regs (sync h e s) SR1 = ev_SR1 (hw e (tick s))"
  "regs (sync h e s) SR2 = ev_SR2 (hw e (tick s))"
  "regs (sync h e s) CR1 = regs s CR1 AND NOT (ev_clr (hw e (tick s)))"
  by (simp_all add: sync_def Let_def)

lemma rd_hw_frame [simp]:
  "my_data (snd (rd_hw h e r s)) = my_data s"
  "nrx (snd (rd_hw h e r s)) = nrx s"
  "irq_on (snd (rd_hw h e r s)) = irq_on s"
  "i2c_bus_result (snd (rd_hw h e r s)) = i2c_bus_result s"
  "tick (snd (rd_hw h e r s)) = Suc (tick s)"
  "trace (snd (rd_hw h e r s)) = trace s @ [Rd r (fst (rd_hw h e r s))]"
  by (simp_all add: rd_hw_def rd_def log_def)

lemma rd_hw_value [simp]:
  "fst (rd_hw h e SR1 s) = ev_SR1 (hw e (tick s))"
  "fst (rd_hw h e SR2 s) = ev_SR2 (hw e (tick s))"
  "fst (rd_hw h e CR1 s) = regs s CR1 AND NOT (ev_clr (hw e (tick s)))"
  "regs (snd (rd_hw h e r s)) = regs (sync h e s)"
  by (simp_all add: rd_hw_def rd_def log_def)

lemma wait_set_unfold:
  "wait_set h e r m s =
    (if fst (rd_hw h e r s) AND m \<noteq> 0 then Some (snd (rd_hw h e r s))
     else wait_set h e r m (snd (rd_hw h e r s)))"
  by (subst wait_set.simps) (simp add: case_prod_beta)

lemma wait_clr_unfold:
  "wait_clr h e r m s =
    (if fst (rd_hw h e r s) AND m \<noteq> 0 then wait_clr h e r m (snd (rd_hw h e r s))
     else Some (snd (rd_hw h e r s)))"
  by (subst wait_clr.simps) (simp add: case_prod_beta)

lemma wait_set_Some:
  assumes "wait_set h e r m s = Some s'"
  shows "\<exists>vs v. polled r s s' (vs @ [v]) \<and> v AND m \<noteq> 0 \<and> (\<forall>u\<in>set vs. u AND m = 0)"
proof (rule wait_set.raw_induct [OF _ assms,
    where P = "\<lambda>h e r m s s'. \<exists>vs v. polled r s s' (vs @ [v]) \<and> v AND m \<noteq> 0
                 \<and> (\<forall>u\<in>set vs. u AND m = 0)"], goal_cases)
  case (1 wait_set h e r m s s')
  show ?case
  proof (cases "fst (rd_hw h e r s) AND m \<noteq> 0")
    case True
    with 1(2) have "s' = snd (rd_hw h e r s)" by (simp add: case_prod_beta)
    with True have "polled r s s' ([] @ [fst (rd_hw h e r s)]) \<and> fst (rd_hw h e r s) AND m \<noteq> 0
        \<and> (\<forall>u\<in>set []. u AND m = 0)"
      by (simp add: polled_def)
    then show ?thesis by blast
  next
    case False
    with 1(2) have "wait_set h e r m (snd (rd_hw h e r s)) = Some s'" by (simp add: case_prod_beta)
    from 1(1) [OF this] obtain vs v where
      p: "polled r (snd (rd_hw h e r s)) s' (vs @ [v])" and v: "v AND m \<noteq> 0"
      and vs: "\<forall>u\<in>set vs. u AND m = 0" by blast
    from p have "polled r s s' ((fst (rd_hw h e r s) # vs) @ [v])" by (simp add: polled_def)
    moreover from vs False have "\<forall>u\<in>set (fst (rd_hw h e r s) # vs). u AND m = 0" by simp
    ultimately show ?thesis using v by blast
  qed
qed

lemma wait_clr_Some:
  assumes "wait_clr h e r m s = Some s'"
  shows "\<exists>vs v. polled r s s' (vs @ [v]) \<and> v AND m = 0 \<and> regs s' r = v"
proof (rule wait_clr.raw_induct [OF _ assms,
    where P = "\<lambda>h e r m s s'. \<exists>vs v. polled r s s' (vs @ [v]) \<and> v AND m = 0
                 \<and> regs s' r = v"], goal_cases)
  case (1 wait_clr h e r m s s')
  show ?case
  proof (cases "fst (rd_hw h e r s) AND m \<noteq> 0")
    case False
    with 1(2) have "s' = snd (rd_hw h e r s)" by (simp add: case_prod_beta)
    with False have "polled r s s' ([] @ [fst (rd_hw h e r s)]) \<and> fst (rd_hw h e r s) AND m = 0
       \<and> regs s' r = fst (rd_hw h e r s)"
      by (simp add: polled_def rd_hw_def rd_def log_def)
    then show ?thesis by blast
  next
    case True
    with 1(2) have "wait_clr h e r m (snd (rd_hw h e r s)) = Some s'" by (simp add: case_prod_beta)
    from 1(1) [OF this] obtain vs v where
      p: "polled r (snd (rd_hw h e r s)) s' (vs @ [v])" and v: "v AND m = 0" "regs s' r = v"
      by blast
    from p have "polled r s s' ((fst (rd_hw h e r s) # vs) @ [v])" by (simp add: polled_def)
    then show ?thesis using v by blast
  qed
qed

lemma wait_set_SR1_returns:
  assumes "ev_SR1 (hw e (tick s + j)) AND m \<noteq> 0"
  shows "\<exists>s'. wait_set h e SR1 m s = Some s'"
  using assms
proof (induction j arbitrary: s)
  case 0
  then show ?case by (subst wait_set_unfold) simp
next
  case (Suc j)
  then have "ev_SR1 (hw e (tick (snd (rd_hw h e SR1 s)) + j)) AND m \<noteq> 0" by simp
  from Suc.IH [OF this] show ?case by (subst wait_set_unfold) simp
qed

lemma wait_clr_CR1_returns:
  assumes "m AND NOT (ev_clr (hw e (tick s + j))) = 0"
  shows "\<exists>s'. wait_clr h e CR1 m s = Some s'"
  using assms
proof (induction j arbitrary: s)
  case 0
  have "(regs s CR1 AND NOT (ev_clr (hw e (tick s)))) AND m
        = regs s CR1 AND (m AND NOT (ev_clr (hw e (tick s))))"
    by (simp add: ac_simps)
  with 0 have "fst (rd_hw h e CR1 s) AND m = 0" by simp
  then show ?case by (subst wait_clr_unfold) simp
next
  case (Suc j)
  then have "m AND NOT (ev_clr (hw e (tick (snd (rd_hw h e CR1 s)) + j))) = 0" by simp
  from Suc.IH [OF this] show ?case by (subst wait_clr_unfold) simp
qed

lemma dr_reads_simps [simp]:
  "dr_reads [] = []"
  "dr_reads (xs @ ys) = dr_reads xs @ dr_reads ys"
  "dr_reads (Rd DR v # xs) = v # dr_reads xs"
  "r \<noteq> DR \<Longrightarrow> dr_reads (Rd r v # xs) = dr_reads xs"
  "dr_reads (SetBits r m v # xs) = dr_reads xs"
  "dr_reads (ClrBits r m v # xs) = dr_reads xs"
  "dr_reads (IrqDisable # xs) = dr_reads xs"
  "dr_reads (IrqRestore b # xs) = dr_reads xs"
  by (simp_all add: dr_reads_def dr_read_def)

lemma dr_reads_polls [simp]: "r \<noteq> DR \<Longrightarrow> dr_reads (map (Rd r) vs) = []"
  by (induction vs) simp_all

lemma raises_wait:
  assumes "raises h e flag"
  shows "\<exists>s' vs v. wait_set h e SR1 (h flag) s = Some s' \<and> polled SR1 s s' (vs @ [v])
            \<and> v AND h flag \<noteq> 0 \<and> (\<forall>u\<in>set vs. u AND h flag = 0)"
proof -
  from assms obtain j where "ev_SR1 (hw e (tick s + j)) AND h flag \<noteq> 0"
    unfolding raises_def by blast
  then obtain s' where "wait_set h e SR1 (h flag) s = Some s'"
    using wait_set_SR1_returns by blast
  with wait_set_Some [OF this] show ?thesis by blast
qed

lemma completes_stop_wait:
  assumes "completes_stop h e"
  shows "\<exists>s' vs v. wait_clr h e CR1 (h I2C_CR1_STOP) s = Some s' \<and> polled CR1 s s' (vs @ [v])
            \<and> v AND h I2C_CR1_STOP = 0 \<and> regs s' CR1 = v"
proof -
  from assms obtain j where "h I2C_CR1_STOP AND NOT (ev_clr (hw e (tick s + j))) = 0"
    unfolding completes_stop_def by blast
  then obtain s' where "wait_clr h e CR1 (h I2C_CR1_STOP) s = Some s'"
    using wait_clr_CR1_returns by blast
  with wait_clr_Some [OF this] show ?thesis by blast
qed

section \<open>The default read path\<close>

lemma rx_loop_unfold:
  "rx_loop h e bound i s =
    (if i < bound
     then Option.bind (wait_set h e SR1 (h I2C_SR1_RXNE) s) (\<lambda>s.
            rx_loop h e bound (i + 1) (store i (fst (rd_DR e s)) (snd (rd_DR e s))))
     else Some (i, s))"
  by (subst rx_loop.simps) (simp add: case_prod_beta)

lemma rx_loop_returns:
  assumes rx: "raises h e I2C_SR1_RXNE" and n: "n = nat (bound - i)" and i: "0 \<le> i"
  shows "\<exists>s' tr. rx_loop h e bound i s = Some (i + int n, s')
           \<and> nrx s' = nrx s + n
           \<and> (\<forall>k. my_data s' k = (if nat i \<le> k \<and> k < nat i + n
                                     then ucast (rx e (nrx s + (k - nat i))) else my_data s k))
           \<and> trace s' = trace s @ tr
           \<and> dr_reads tr = map (rx e) [nrx s..<nrx s + n]"
  using n i
proof (induction n arbitrary: i s)
  case 0
  then have "\<not> i < bound" by simp
  then have "rx_loop h e bound i s = Some (i, s)" by (subst rx_loop_unfold) simp
  then show ?case by auto
next
  case (Suc n)
  then have lt: "i < bound" by simp
  from raises_wait [OF rx, of s] obtain s1 vs v where
    w: "wait_set h e SR1 (h I2C_SR1_RXNE) s = Some s1" and p: "polled SR1 s s1 (vs @ [v])"
    by blast
  define s2 where "s2 = store i (fst (rd_DR e s1)) (snd (rd_DR e s1))"
  have s2: "nrx s2 = Suc (nrx s)" "my_data s2 = (my_data s)(nat i := ucast (rx e (nrx s)))"
    "trace s2 = trace s @ map (Rd SR1) (vs @ [v]) @ [Rd DR (rx e (nrx s))]"
    using p by (simp_all add: s2_def polled_def store_def rd_DR_def rd_def log_def)
  from Suc.prems have "n = nat (bound - (i + 1))" "0 \<le> i + 1" by simp_all
  from Suc.IH [OF this, of s2] obtain s' tr where
    r: "rx_loop h e bound (i + 1) s2 = Some (i + 1 + int n, s')"
    and nr: "nrx s' = nrx s2 + n"
    and md: "\<forall>k. my_data s' k = (if nat (i + 1) \<le> k \<and> k < nat (i + 1) + n
                       then ucast (rx e (nrx s2 + (k - nat (i + 1)))) else my_data s2 k)"
    and tr: "trace s' = trace s2 @ tr" "dr_reads tr = map (rx e) [nrx s2..<nrx s2 + n]"
    by blast
  have 1: "rx_loop h e bound i s = Some (i + int (Suc n), s')"
    using lt w r by (subst rx_loop_unfold) (simp add: s2_def)
  have 2: "nrx s' = nrx s + Suc n" using nr s2 by simp
  have 3: "\<forall>k. my_data s' k = (if nat i \<le> k \<and> k < nat i + Suc n
                       then ucast (rx e (nrx s + (k - nat i))) else my_data s k)"
  proof
    fix k
    from \<open>0 \<le> i\<close> have ni: "nat (i + 1) = Suc (nat i)" by simp
    show "my_data s' k = (if nat i \<le> k \<and> k < nat i + Suc n
                       then ucast (rx e (nrx s + (k - nat i))) else my_data s k)"
    proof (cases "k = nat i")
      case True
      then show ?thesis using md s2 ni by simp
    next
      case False
      then show ?thesis using md s2 ni by (auto simp: Suc_diff_Suc)
    qed
  qed
  have 4: "trace s' = trace s @ (map (Rd SR1) (vs @ [v]) @ [Rd DR (rx e (nrx s))] @ tr)"
    using tr s2 by simp
  have 5: "dr_reads (map (Rd SR1) (vs @ [v]) @ [Rd DR (rx e (nrx s))] @ tr)
            = map (rx e) [nrx s..<nrx s + Suc n]"
    using tr(2) s2(1) by (simp add: upt_rec [of "nrx s"] del: map_append)
  from 1 2 3 4 5 show ?case by blast
qed

lemmas prim_ops = log_def wr_def set_bits_def clr_bits_def rd_def rd_DR_def store_def
  irq_disable_def irq_restore_def

lemma clear_addr_frame:
  "my_data (clear_addr h e s) = my_data s"
  "nrx (clear_addr h e s) = nrx s"
  "\<exists>v1 v2. trace (clear_addr h e s) = trace s @ [Rd SR1 v1, Rd SR2 v2]"
  by (simp_all add: clear_addr_def)

lemma read_n_returns:
  assumes rx: "raises h e I2C_SR1_RXNE" and btf: "raises h e I2C_SR1_BTF"
    and cs: "completes_stop h e" and len: "- (2 ^ 31) \<le> len - 3" and n: "n = nat (len - 3)"
  shows "\<exists>s' pre v post. read_n h e len s = Some (Inr s')
     \<and> nrx s' = nrx s + n + 3
     \<and> (\<forall>k. my_data s' k = (if k < n + 3 then ucast (rx e (nrx s + k)) else my_data s k))
     \<and> trace s' = trace s @ pre @ Rd SR1 v # post \<and> v AND h I2C_SR1_BTF \<noteq> 0
     \<and> dr_reads pre = map (rx e) [nrx s..<nrx s + n]
     \<and> dr_reads post = map (rx e) [nrx s + n..<nrx s + n + 3]"
proof -
  define s0 where "s0 = clear_addr h e s"
  from clear_addr_frame [of h e s] obtain a1 a2 where
    s0: "my_data s0 = my_data s" "nrx s0 = nrx s" "trace s0 = trace s @ [Rd SR1 a1, Rd SR2 a2]"
    unfolding s0_def by blast
  from n have n': "n = nat (len - 3 - 0)" by simp
  from rx_loop_returns [OF rx n', of s0] obtain s1 tr1 where
    l: "rx_loop h e (len - 3) 0 s0 = Some (int n, s1)"
    and s1: "nrx s1 = nrx s0 + n"
      "\<forall>k. my_data s1 k = (if k < n then ucast (rx e (nrx s0 + k)) else my_data s0 k)"
      "trace s1 = trace s0 @ tr1" "dr_reads tr1 = map (rx e) [nrx s0..<nrx s0 + n]"
    by auto
  from raises_wait [OF btf, of s1] obtain s2 vs2 v2 where
    w2: "wait_set h e SR1 (h I2C_SR1_BTF) s1 = Some s2" and p2: "polled SR1 s1 s2 (vs2 @ [v2])"
    and v2: "v2 AND h I2C_SR1_BTF \<noteq> 0"
    by blast
  define a where "a = snd (irq_disable (clr_bits CR1 (h I2C_CR1_ACK) s2))"
  define st where "st = fst (irq_disable (clr_bits CR1 (h I2C_CR1_ACK) s2))"
  define g where "g = irq_restore st (set_bits CR1 (h I2C_CR1_STOP)
                         (store (int n) (fst (rd_DR e a)) (snd (rd_DR e a))))"
  define s3 where "s3 = store (int n + 1) (fst (rd_DR e g)) (snd (rd_DR e g))"
  define c3 where "c3 = regs s2 CR1 AND NOT (h I2C_CR1_ACK)"
  have s3: "nrx s3 = nrx s2 + 2"
    "my_data s3 = (my_data s2)(n := ucast (rx e (nrx s2)), Suc n := ucast (rx e (Suc (nrx s2))))"
    "trace s3 = trace s2 @ [ClrBits CR1 (h I2C_CR1_ACK) c3, IrqDisable, Rd DR (rx e (nrx s2)),
        SetBits CR1 (h I2C_CR1_STOP) (c3 OR h I2C_CR1_STOP), IrqRestore st,
        Rd DR (rx e (Suc (nrx s2)))]"
    by (simp_all add: s3_def g_def a_def st_def c3_def prim_ops nat_add_distrib)
  from raises_wait [OF rx, of s3] obtain s4 vs4 v4 where
    w4: "wait_set h e SR1 (h I2C_SR1_RXNE) s3 = Some s4" and p4: "polled SR1 s3 s4 (vs4 @ [v4])"
    by blast
  define s5 where "s5 = store (int n + 2) (fst (rd_DR e s4)) (snd (rd_DR e s4))"
  have s5: "nrx s5 = nrx s4 + 1"
    "my_data s5 = (my_data s4)(n + 2 := ucast (rx e (nrx s4)))"
    "trace s5 = trace s4 @ [Rd DR (rx e (nrx s4))]"
    by (simp_all add: s5_def prim_ops nat_add_distrib)
  from completes_stop_wait [OF cs, of s5] obtain s6 vs6 v6 where
    w6: "wait_clr h e CR1 (h I2C_CR1_STOP) s5 = Some s6" and p6: "polled CR1 s5 s6 (vs6 @ [v6])"
    by blast
  define s7 where "s7 = set_bits CR1 (h I2C_CR1_ACK) (clr_bits CR1 (h I2C_CR1_POS) s6)"
  define c7 where "c7 = regs s6 CR1 AND NOT (h I2C_CR1_POS)"
  have s7: "nrx s7 = nrx s6" "my_data s7 = my_data s6"
    "trace s7 = trace s6 @ [ClrBits CR1 (h I2C_CR1_POS) c7,
        SetBits CR1 (h I2C_CR1_ACK) (c7 OR h I2C_CR1_ACK)]"
    by (simp_all add: s7_def c7_def prim_ops)
  have res: "read_n h e len s = Some (Inr s7)"
    using len l w2 w4 w6
    unfolding read_n_def s0_def s3_def g_def a_def st_def s5_def s7_def
    by (simp add: Let_def case_prod_beta)
  define pre where "pre = [Rd SR1 a1, Rd SR2 a2] @ tr1 @ map (Rd SR1) vs2"
  define post where "post = [ClrBits CR1 (h I2C_CR1_ACK) c3, IrqDisable, Rd DR (rx e (nrx s2)),
        SetBits CR1 (h I2C_CR1_STOP) (c3 OR h I2C_CR1_STOP), IrqRestore st,
        Rd DR (rx e (Suc (nrx s2)))]
        @ map (Rd SR1) (vs4 @ [v4]) @ [Rd DR (rx e (nrx s4))] @ map (Rd CR1) (vs6 @ [v6])
        @ [ClrBits CR1 (h I2C_CR1_POS) c7, SetBits CR1 (h I2C_CR1_ACK) (c7 OR h I2C_CR1_ACK)]"
  have nr2: "nrx s2 = nrx s + n" using p2 s1 s0 by (simp add: polled_def)
  have nr4: "nrx s4 = nrx s + n + 2" using p4 s3 nr2 by (simp add: polled_def)
  have 1: "nrx s7 = nrx s + n + 3" using s7 p6 s5 nr4 by (simp add: polled_def)
  have md: "my_data s7 = (my_data s1)(n := ucast (rx e (nrx s + n)),
       Suc n := ucast (rx e (nrx s + n + 1)), n + 2 := ucast (rx e (nrx s + n + 2)))"
    using s7 p6 s5 p4 s3 p2 nr2 nr4 by (simp add: polled_def)
  have 2: "\<forall>k. my_data s7 k = (if k < n + 3 then ucast (rx e (nrx s + k)) else my_data s k)"
  proof
    fix k
    consider "k < n" | "k = n" | "k = Suc n" | "k = n + 2" | "n + 3 \<le> k" by linarith
    then show "my_data s7 k = (if k < n + 3 then ucast (rx e (nrx s + k)) else my_data s k)"
      using s1(2) s0 by cases (simp_all add: md)
  qed
  have 3: "trace s7 = trace s @ pre @ Rd SR1 v2 # post"
    using s7 p6 s5 p4 s3 p2 s1 s0 by (simp add: polled_def pre_def post_def)
  have 4: "dr_reads pre = map (rx e) [nrx s..<nrx s + n]"
    using s1 s0 by (simp add: pre_def)
  have "[nrx s + n..<nrx s + n + 3] = [nrx s + n, Suc (nrx s + n), nrx s + n + 2]"
    by (simp add: upt_rec)
  then have 5: "dr_reads post = map (rx e) [nrx s + n..<nrx s + n + 3]"
    using nr2 nr4 by (simp add: post_def)
  from res 1 2 3 v2 4 5 show ?thesis by blast
qed

section \<open>The start phase\<close>

lemma busy_wait_unfold:
  "busy_wait h e t s =
    (if fst (rd_hw h e SR2 s) AND h I2C_SR2_BUSY \<noteq> 0
     then busy_wait h e t (busy_body h e t (snd (rd_hw h e SR2 s)))
     else Some (snd (rd_hw h e SR2 s)))"
  by (subst busy_wait.simps) (simp add: case_prod_beta)

lemma addr_wait_unfold:
  "addr_wait h e s =
    (if fst (rd_hw h e SR1 s) AND h I2C_SR1_ADDR = 0
     then (if fst (rd_bus_error h e (snd (rd_hw h e SR1 s))) \<noteq> 0
           then Some (- 1, i2c_reset h (snd (rd_bus_error h e (snd (rd_hw h e SR1 s)))))
           else addr_wait h e (snd (rd_bus_error h e (snd (rd_hw h e SR1 s)))))
     else Some (0, snd (rd_hw h e SR1 s)))"
  by (subst addr_wait.simps) (simp add: case_prod_beta)

lemmas run_defs = start_result_def start_def start_addr_def xtimer_now_usec_def
  rd_bus_error_def rd_hw_def sync_def clear_addr_def addr_byte_def busy_body_def
  i2c_reset_def i2c_init_def prim_ops Let_def case_prod_beta

lemma ready_start:
  "\<exists>s1. start_result stm32_hdr ready_env a I2C_FLAG_READ idle = Some (0, s1)"
  by (simp add: run_defs idle_def ready_env_def
      busy_wait_unfold wait_set_unfold addr_wait_unfold)

lemma kept_refl [simp]: "kept s s"
  by (simp add: kept_def)

lemma kept_trans: "kept s s1 \<Longrightarrow> kept s1 s2 \<Longrightarrow> kept s s2"
  by (auto simp: kept_def)

lemma kept_sync [simp]: "kept s (sync h e s)"
  by (simp add: kept_def)

lemma kept_rd_hw [simp]: "kept s (snd (rd_hw h e r s))"
  by (simp add: kept_def)

lemma kept_reset [simp]: "kept s (i2c_reset h s)"
  by (simp add: kept_def i2c_reset_def i2c_init_def prim_ops Let_def)

lemma kept_busy_body [simp]: "kept s (busy_body h e t s)"
proof -
  have "kept s (sync h e s)" by simp
  moreover have "kept (sync h e s) (i2c_reset h (sync h e s))" by simp
  ultimately have "kept s (i2c_reset h (sync h e s))" by (rule kept_trans)
  then show ?thesis by (simp add: busy_body_def xtimer_now_usec_def)
qed

lemma polled_kept: "polled r s s' vs \<Longrightarrow> kept s s'"
  by (auto simp: polled_def kept_def)

lemma busy_wait_Some:
  assumes "busy_wait h e t s = Some s'"
  shows "kept s s'"
proof (rule busy_wait.raw_induct [OF _ assms, where P = "\<lambda>h e t s s'. kept s s'"], goal_cases)
  case (1 busy_wait h e t s s')
  show ?case
  proof (cases "fst (rd_hw h e SR2 s) AND h I2C_SR2_BUSY \<noteq> 0")
    case True
    with 1(2) have "busy_wait h e t (busy_body h e t (snd (rd_hw h e SR2 s))) = Some s'"
      by (simp add: case_prod_beta)
    from 1(1) [OF this] have "kept (busy_body h e t (snd (rd_hw h e SR2 s))) s'" .
    moreover have "kept s (busy_body h e t (snd (rd_hw h e SR2 s)))"
      by (rule kept_trans [OF kept_rd_hw kept_busy_body])
    ultimately show ?thesis by (rule kept_trans [rotated])
  next
    case False
    with 1(2) have "s' = snd (rd_hw h e SR2 s)" by (simp add: case_prod_beta)
    then show ?thesis by simp
  qed
qed

lemma addr_wait_Some:
  assumes "addr_wait h e s = Some (r, s')"
  shows "(r = 0 \<or> r = - 1) \<and> kept s s'"
proof -
  have "(fst (r, s') = 0 \<or> fst (r, s') = - 1) \<and> kept s (snd (r, s'))"
  proof (rule addr_wait.raw_induct [OF _ assms,
      where P = "\<lambda>h e s y. (fst y = 0 \<or> fst y = - 1) \<and> kept s (snd y)"], goal_cases)
    case (1 addr_wait h e s y)
    let ?s1 = "snd (rd_hw h e SR1 s)"
    let ?s2 = "sync h e ?s1"
    have k2: "kept s ?s2" by (rule kept_trans [OF kept_rd_hw kept_sync])
    show ?case
    proof (cases "fst (rd_hw h e SR1 s) AND h I2C_SR1_ADDR = 0")
      case False
      with 1(2) show ?thesis by (auto simp: case_prod_beta)
    next
      case True
      show ?thesis
      proof (cases "i2c_bus_error ?s2 \<noteq> 0")
        case err: True
        with True 1(2) have "y = (- 1, i2c_reset h ?s2)"
          by (simp add: case_prod_beta rd_bus_error_def Let_def)
        with kept_trans [OF k2 kept_reset] show ?thesis by simp
      next
        case False
        with True 1(2) have "addr_wait h e ?s2 = Some y"
          by (simp add: case_prod_beta rd_bus_error_def Let_def)
        from 1(1) [OF this] kept_trans [OF k2] show ?thesis by blast
      qed
    qed
  qed
  then show ?thesis by simp
qed

lemma start_Some:
  assumes "start h e a rw s = Some (r, s')"
  shows "(r = 0 \<or> r = - 1) \<and> kept s s'"
proof -
  from assms obtain s3 where a: "start_addr h e a rw s = Some s3"
    and w: "addr_wait h e s3 = Some (r, s')"
    by (auto simp: start_def split: bind_splits)
  from a obtain s1 s2 where b: "busy_wait h e (ev_usec (hw e (tick s))) (sync h e s) = Some s1"
    and sb: "wait_set h e SR1 (h I2C_SR1_SB) (set_bits CR1 (h I2C_CR1_START) s1) = Some s2"
    and s3: "s3 = wr DR (addr_byte a rw) (s2\<lparr>i2c_bus_error := 0\<rparr>)"
    by (auto simp: start_addr_def xtimer_now_usec_def split: bind_splits)
  have "kept s s1" by (rule kept_trans [OF kept_sync busy_wait_Some [OF b]])
  moreover have "kept s1 (set_bits CR1 (h I2C_CR1_START) s1)" by (simp add: kept_def prim_ops)
  moreover from wait_set_Some [OF sb] have "kept (set_bits CR1 (h I2C_CR1_START) s1) s2"
    using polled_kept by blast
  moreover have "kept s2 s3" by (simp add: s3 kept_def prim_ops)
  moreover from addr_wait_Some [OF w] have "kept s3 s'" by simp
  ultimately have "kept s s'" by (blast intro: kept_trans)
  with addr_wait_Some [OF w] show ?thesis by simp
qed

lemma start_result_Some:
  assumes "start_result h e a flag s = Some (r, s')"
  shows "(r = 0 \<or> r = - 1) \<and> kept s s' \<and> i2c_bus_result s' = r
         \<and> (\<exists>s0. start h e a (ucast (h flag)) s = Some (r, s0) \<and> s' = s0\<lparr>i2c_bus_result := r\<rparr>)"
proof -
  from assms obtain s0 where s0: "start h e a (ucast (h flag)) s = Some (r, s0)"
    and s': "s' = s0\<lparr>i2c_bus_result := r\<rparr>"
    by (auto simp: start_result_def split: bind_splits)
  from start_Some [OF s0] have "(r = 0 \<or> r = - 1)" "kept s s0" by simp_all
  then show ?thesis using s0 s' by (auto simp: kept_def)
qed

section \<open>Reads of three bytes and more, and of other lengths\<close>

text \<open>
  C5: for a valid bus and a length \<open>N\<close> of at least 3, when the start phase has
  succeeded (in state \<open>s1\<close>) and the hardware goes on showing the awaited flags,
  \<^verbatim>\<open>i2c_read_bytes\<close> returns \<open>N\<close>; the buffer holds at positions \<open>0\<close> to \<open>N - 1\<close> the
  next \<open>N\<close> bytes of the peer in the order it issued them, no other position is
  written, and the last three of them were read from the data register after the
  byte-transfer-complete flag had been seen, the others before.
\<close>

theorem read_bytes_delivers:
  assumes dev: "dev < numof" and N: "3 \<le> N"
    and st: "start_result h e address I2C_FLAG_READ s = Some (0, s1)"
    and rx: "raises h e I2C_SR1_RXNE" and btf: "raises h e I2C_SR1_BTF"
    and cs: "completes_stop h e"
  shows "\<exists>s' pre v post. i2c_read_bytes h e numof dev address N s = Some (Inr (N, s'))
        \<and> (\<forall>k. my_data s' k = (if k < nat N then ucast (rx e (nrx s + k)) else my_data s k))
        \<and> nrx s' = nrx s + nat N
        \<and> trace s' = trace s1 @ pre @ Rd SR1 v # post \<and> v AND h I2C_SR1_BTF \<noteq> 0
        \<and> dr_reads pre = map (rx e) [nrx s..<nrx s + (nat N - 3)]
        \<and> dr_reads post = map (rx e) [nrx s + (nat N - 3)..<nrx s + nat N]"
proof -
  from start_result_Some [OF st] have k: "my_data s1 = my_data s" "nrx s1 = nrx s"
    by (simp_all add: kept_def)
  from N have len: "- (2 ^ 31) \<le> N - 3" by simp
  from N have n: "nat (N - 3) + 3 = nat N" "nat (N - 3) = nat N - 3" by simp_all
  from read_n_returns [OF rx btf cs len refl, of s1] obtain s' pre v post where
    r: "read_n h e N s1 = Some (Inr s')"
    and p: "nrx s' = nrx s1 + nat (N - 3) + 3"
      "\<forall>k. my_data s' k = (if k < nat (N - 3) + 3 then ucast (rx e (nrx s1 + k)) else my_data s1 k)"
      "trace s' = trace s1 @ pre @ Rd SR1 v # post" "v AND h I2C_SR1_BTF \<noteq> 0"
      "dr_reads pre = map (rx e) [nrx s1..<nrx s1 + nat (N - 3)]"
      "dr_reads post = map (rx e) [nrx s1 + nat (N - 3)..<nrx s1 + nat (N - 3) + 3]"
    by blast
  have "i2c_read_bytes h e numof dev address N s = Some (Inr (N, s'))"
    using dev N st r by (simp add: i2c_read_bytes_def)
  moreover have "nrx s' = nrx s + nat N" using p(1) k n by simp
  moreover have "\<forall>k. my_data s' k = (if k < nat N then ucast (rx e (nrx s + k)) else my_data s k)"
    using p(2) k n by simp
  moreover have "dr_reads pre = map (rx e) [nrx s..<nrx s + (nat N - 3)]"
    using p(5) k n by simp
  moreover have "dr_reads post = map (rx e) [nrx s + (nat N - 3)..<nrx s + nat N]"
    using p(6) k n N by (simp add: add.assoc)
  ultimately show ?thesis using p(3,4) by blast
qed

lemma ready_flags:
  "raises stm32_hdr ready_env I2C_SR1_RXNE" "raises stm32_hdr ready_env I2C_SR1_BTF"
  "completes_stop stm32_hdr ready_env"
  by (simp_all add: raises_def completes_stop_def ready_env_def)

theorem read_bytes_delivers_witness:
  "\<exists>s'. i2c_read_bytes stm32_hdr ready_env 1 0 0x1D 6 idle = Some (Inr (6, s'))
        \<and> map (my_data s') [0, 1, 2, 3, 4, 5] = [0, 1, 2, 3, 4, 5] \<and> nrx s' = 6"
proof -
  from ready_start obtain s1 where
    st: "start_result stm32_hdr ready_env 0x1D I2C_FLAG_READ idle = Some (0, s1)" by blast
  have dev: "(0::nat) < 1" and N: "(3::int) \<le> 6" by simp_all
  from read_bytes_delivers [OF dev N st ready_flags] obtain s' where
    "i2c_read_bytes stm32_hdr ready_env 1 0 0x1D 6 idle = Some (Inr (6, s'))"
    "\<forall>k. my_data s' k = (if k < nat 6 then ucast (rx ready_env (nrx idle + k)) else my_data idle k)"
    "nrx s' = nrx idle + nat 6"
    by blast
  then show ?thesis by (simp add: idle_def ready_env_def)
qed

text \<open>
  C9, as amended: for a valid bus and every length other than 1 and 2 for which
  \<^verbatim>\<open>length - 3\<close> is representable, once the start phase has succeeded and the hardware
  goes on showing the awaited flags, \<^verbatim>\<open>i2c_read_bytes\<close> runs the default path and
  returns the length unchanged; it takes three bytes more than \<^verbatim>\<open>length - 3\<close> (or than
  none) from the peer, so for a length of zero or less it stores three received bytes
  at positions 0, 1 and 2.
\<close>

theorem read_bytes_default_path:
  assumes dev: "dev < numof" and l1: "len \<noteq> 1" and l2: "len \<noteq> 2"
    and len: "- (2 ^ 31) \<le> len - 3"
    and st: "start_result h e address I2C_FLAG_READ s = Some (0, s1)"
    and rx: "raises h e I2C_SR1_RXNE" and btf: "raises h e I2C_SR1_BTF"
    and cs: "completes_stop h e"
  shows "\<exists>s'. i2c_read_bytes h e numof dev address len s = Some (Inr (len, s'))
        \<and> read_n h e len s1 = Some (Inr s')
        \<and> nrx s' = nrx s + nat (len - 3) + 3
        \<and> (\<forall>k. my_data s' k = (if k < nat (len - 3) + 3 then ucast (rx e (nrx s + k))
                                  else my_data s k))
        \<and> (len \<le> 0 \<longrightarrow> nrx s' = nrx s + 3
              \<and> my_data s' 0 = ucast (rx e (nrx s)) \<and> my_data s' 1 = ucast (rx e (nrx s + 1))
              \<and> my_data s' 2 = ucast (rx e (nrx s + 2)))"
proof -
  from start_result_Some [OF st] have k: "my_data s1 = my_data s" "nrx s1 = nrx s"
    by (simp_all add: kept_def)
  from read_n_returns [OF rx btf cs len refl, of s1] obtain s' where
    r: "read_n h e len s1 = Some (Inr s')"
    and p: "nrx s' = nrx s1 + nat (len - 3) + 3"
      "\<forall>k. my_data s' k = (if k < nat (len - 3) + 3 then ucast (rx e (nrx s1 + k)) else my_data s1 k)"
    by blast
  have "i2c_read_bytes h e numof dev address len s = Some (Inr (len, s'))"
    using dev l1 l2 st r by (simp add: i2c_read_bytes_def)
  then show ?thesis using r p k by auto
qed

theorem read_bytes_default_path_witness:
  "\<exists>s'. i2c_read_bytes stm32_hdr ready_env 1 0 0x1D 0 idle = Some (Inr (0, s'))
        \<and> map (my_data s') [0, 1, 2, 3] = [0, 1, 2, 0] \<and> nrx s' = 3"
proof -
  from ready_start obtain s1 where
    st: "start_result stm32_hdr ready_env 0x1D I2C_FLAG_READ idle = Some (0, s1)" by blast
  have dev: "(0::nat) < 1" and l: "(0::int) \<noteq> 1" "(0::int) \<noteq> 2" "- (2 ^ 31) \<le> (0::int) - 3"
    by simp_all
  from read_bytes_default_path [OF dev l st ready_flags] obtain s' where
    "i2c_read_bytes stm32_hdr ready_env 1 0 0x1D 0 idle = Some (Inr (0, s'))"
    "\<forall>k. my_data s' k = (if k < nat (0 - 3) + 3 then ucast (rx ready_env (nrx idle + k))
                          else my_data idle k)"
    "nrx s' = nrx idle + nat (0 - 3) + 3"
    by blast
  then show ?thesis by (simp add: idle_def ready_env_def)
qed

text \<open>
  C9 as stated covers every negative length. At the smallest \<^verbatim>\<open>int\<close> the loop bound
  \<^verbatim>\<open>length - 3\<close> overflows: the behaviour is undefined and nothing is returned.
\<close>

theorem read_bytes_overflow_counterexample:
  "i2c_read_bytes stm32_hdr ready_env 1 0 0x1D (- 2147483648) idle = Some (Inl SignedOverflow)"
proof -
  from ready_start obtain s1 where
    st: "start_result stm32_hdr ready_env 0x1D I2C_FLAG_READ idle = Some (0, s1)" by blast
  then show ?thesis by (simp add: i2c_read_bytes_def read_n_def Let_def)
qed

section \<open>Faults in the start phase\<close>

text \<open>
  C10: for a valid bus, when the start phase of a read or of a write ends with a
  negative status, the operation returns exactly \<open>-1\<close>; the fault variable keeps
  whatever code the handler stored, and the returned value does not depend on it.
\<close>

theorem start_fault_returns_minus_one:
  assumes dev: "dev < numof"
  shows "(\<forall>r s1. start h e address (ucast (h I2C_FLAG_READ)) s = Some (r, s1) \<and> r < 0 \<longrightarrow>
            i2c_read_bytes h e numof dev address len s
              = Some (Inr (- 1, s1\<lparr>i2c_bus_result := - 1\<rparr>)))
       \<and> (\<forall>r s1. start h e address (ucast (h I2C_FLAG_WRITE)) s = Some (r, s1) \<and> r < 0 \<longrightarrow>
            i2c_write_bytes h e numof dev address data len s
              = Some (- 1, s1\<lparr>i2c_bus_result := - 1\<rparr>))"
proof (intro conjI allI impI)
  fix r s1
  assume a: "start h e address (ucast (h I2C_FLAG_READ)) s = Some (r, s1) \<and> r < 0"
  with start_Some [of h e address _ s r s1] have r: "r = - 1" by auto
  with a have "start_result h e address I2C_FLAG_READ s = Some (- 1, s1\<lparr>i2c_bus_result := - 1\<rparr>)"
    by (simp add: start_result_def)
  with dev show "i2c_read_bytes h e numof dev address len s
              = Some (Inr (- 1, s1\<lparr>i2c_bus_result := - 1\<rparr>))"
    by (simp add: i2c_read_bytes_def)
next
  fix r s1
  assume a: "start h e address (ucast (h I2C_FLAG_WRITE)) s = Some (r, s1) \<and> r < 0"
  with start_Some [of h e address _ s r s1] have r: "r = - 1" by auto
  with a have "start_result h e address I2C_FLAG_WRITE s = Some (- 1, s1\<lparr>i2c_bus_result := - 1\<rparr>)"
    by (simp add: start_result_def)
  with dev show "i2c_write_bytes h e numof dev address data len s
              = Some (- 1, s1\<lparr>i2c_bus_result := - 1\<rparr>)"
    by (simp add: i2c_write_bytes_def)
qed

lemma nack_start:
  "\<exists>s1. start stm32_hdr nack_env a (ucast (stm32_hdr fl)) idle = Some (- 1, s1)
        \<and> i2c_bus_error s1 = - 2"
  by (simp add: run_defs idle_def nack_env_def i2c_irq_def irq_clr_def
      busy_wait_unfold wait_set_unfold addr_wait_unfold)

theorem start_fault_returns_minus_one_witness:
  "(\<exists>s'. i2c_read_bytes stm32_hdr nack_env 1 0 0x1D 6 idle = Some (Inr (- 1, s'))
         \<and> i2c_bus_error s' = - 2)
   \<and> (\<exists>s'. i2c_write_bytes stm32_hdr nack_env 1 0 0x1D (\<lambda>i. 0) 6 idle = Some (- 1, s')
         \<and> i2c_bus_error s' = - 2)"
proof -
  have dev: "(0::nat) < 1" by simp
  from nack_start [of "0x1D" I2C_FLAG_READ] obtain s1 where
    1: "start stm32_hdr nack_env 0x1D (ucast (stm32_hdr I2C_FLAG_READ)) idle = Some (- 1, s1)"
       "i2c_bus_error s1 = - 2" by blast
  from nack_start [of "0x1D" I2C_FLAG_WRITE] obtain s2 where
    2: "start stm32_hdr nack_env 0x1D (ucast (stm32_hdr I2C_FLAG_WRITE)) idle = Some (- 1, s2)"
       "i2c_bus_error s2 = - 2" by blast
  from start_fault_returns_minus_one [OF dev, of stm32_hdr nack_env "0x1D" idle 6 "\<lambda>i. 0"] 1 2
  show ?thesis by auto
qed

section \<open>A bus that stays busy\<close>

lemma resets_simps [simp]:
  "resets [] = 0"
  "resets (xs @ ys) = resets xs + resets ys"
  "resets (BusReset # xs) = Suc (resets xs)"
  "resets (Rd r v # xs) = resets xs"
  "resets (Wr r v # xs) = resets xs"
  "resets (SetBits r m v # xs) = resets xs"
  "resets (ClrBits r m v # xs) = resets xs"
  by (simp_all add: resets_def)

lemma reset_counted: "resets (trace (i2c_reset h s)) = Suc (resets (trace s))"
  by (simp add: i2c_reset_def i2c_init_def prim_ops Let_def)

lemma busy_iter_resets:
  "resets (trace (busy_iter h e t s))
     = resets (trace s) + (if 100000 < ev_usec (hw e (Suc (tick s))) - t then 1 else 0)"
  by (simp add: busy_iter_def busy_body_def xtimer_now_usec_def reset_counted)

lemma busy_wait_step:
  assumes "ev_SR2 (hw e (tick s)) AND h I2C_SR2_BUSY \<noteq> 0"
  shows "busy_wait h e t s = busy_wait h e t (busy_iter h e t s)"
  using assms by (subst busy_wait_unfold) (simp add: busy_iter_def)

lemma busy_wait_None:
  assumes busy: "\<forall>k. ev_SR2 (hw e k) AND h I2C_SR2_BUSY \<noteq> 0"
  shows "busy_wait h e t s = None"
proof (rule ccontr)
  assume "busy_wait h e t s \<noteq> None"
  then obtain s' where r: "busy_wait h e t s = Some s'" by auto
  have "(\<forall>k. ev_SR2 (hw e k) AND h I2C_SR2_BUSY \<noteq> 0) \<longrightarrow> False"
    by (rule busy_wait.raw_induct [OF _ r,
          where P = "\<lambda>h e t s s'. (\<forall>k. ev_SR2 (hw e k) AND h I2C_SR2_BUSY \<noteq> 0) \<longrightarrow> False"])
       (auto simp: case_prod_beta split: if_splits)
  with busy show False by simp
qed

lemma start_None:
  assumes busy: "\<forall>k. ev_SR2 (hw e k) AND h I2C_SR2_BUSY \<noteq> 0"
  shows "start h e address rw s = None"
  by (simp add: start_def start_addr_def xtimer_now_usec_def
        busy_wait_None [where h = h and e = e, OF busy])

text \<open>
  C1 says that a bus whose busy flag never clears makes \<^verbatim>\<open>_start\<close> invoke the bus
  reset exactly once when the 100 ms are over and return a negative status. The code
  does neither. The timeout branch of the busy loop calls \<^verbatim>\<open>_i2c_reset\<close> and falls back
  into the loop: it has no \<^verbatim>\<open>return\<close>, and \<^verbatim>\<open>time_now\<close> is not renewed. So if the flag
  never clears, \<^verbatim>\<open>_start\<close> never returns, and neither does the read or write operation
  that called it; the loop goes on polling, and every pass made when more than 100 ms
  have elapsed since the entry invokes the bus reset once more.
\<close>

theorem busy_bus_never_returns:
  assumes busy: "\<forall>k. ev_SR2 (hw e k) AND h I2C_SR2_BUSY \<noteq> 0"
  shows "start h e address rw s = None
       \<and> (dev < numof \<longrightarrow> i2c_read_bytes h e numof dev address len s = None
                          \<and> i2c_write_bytes h e numof dev address data len s = None)
       \<and> (\<forall>t s. busy_wait h e t s = busy_wait h e t (busy_iter h e t s))
       \<and> (\<forall>t s. resets (trace (busy_iter h e t s))
                 = resets (trace s) + (if 100000 < ev_usec (hw e (Suc (tick s))) - t then 1 else 0))"
proof -
  have "i2c_read_bytes h e numof dev address len s = None" if "dev < numof"
    using that by (simp add: i2c_read_bytes_def start_result_def start_None [where h = h and e = e, OF busy])
  moreover have "i2c_write_bytes h e numof dev address data len s = None" if "dev < numof"
    using that by (simp add: i2c_write_bytes_def start_result_def start_None [where h = h and e = e, OF busy])
  moreover have "\<forall>t s. busy_wait h e t s = busy_wait h e t (busy_iter h e t s)"
    using busy busy_wait_step by blast
  ultimately show ?thesis
    using start_None [where h = h and e = e, OF busy] busy_iter_resets by blast
qed

lemma busy_env_busy: "\<forall>k. ev_SR2 (hw busy_env k) AND stm32_hdr I2C_SR2_BUSY \<noteq> 0"
  by (simp add: busy_env_def)

lemma busy_iter_tick: "tick (busy_iter h e t s) = Suc (Suc (tick s))"
  by (simp add: busy_iter_def busy_body_def xtimer_now_usec_def i2c_reset_def i2c_init_def
        prim_ops Let_def)

text \<open>
  With 30 ms between two moments, the first pass through the loop is made before the
  100 ms are over, the second and the third after them: each of these two resets the bus.
\<close>

lemma busy_env_resets_twice:
  "resets (trace (busy_iter stm32_hdr busy_env 0
         (busy_iter stm32_hdr busy_env 0
           (busy_iter stm32_hdr busy_env 0 (snd (xtimer_now_usec stm32_hdr busy_env idle)))))) = 2"
proof -
  define s0 where "s0 = snd (xtimer_now_usec stm32_hdr busy_env idle)"
  have s0: "tick s0 = 1" "resets (trace s0) = 0"
    by (simp_all add: s0_def xtimer_now_usec_def idle_def)
  have u: "ev_usec (hw busy_env (Suc (Suc 0))) = 60000" "ev_usec (hw busy_env 4) = 120000"
    "ev_usec (hw busy_env 6) = 180000"
    by (simp_all add: busy_env_def)
  define s1 where "s1 = busy_iter stm32_hdr busy_env 0 s0"
  define s2 where "s2 = busy_iter stm32_hdr busy_env 0 s1"
  have s1: "tick s1 = 3" "resets (trace s1) = 0"
    using s0 u by (simp_all add: s1_def busy_iter_resets busy_iter_tick)
  have s2: "tick s2 = 5" "resets (trace s2) = 1"
    using s1 u by (simp_all add: s2_def busy_iter_resets busy_iter_tick)
  have "resets (trace (busy_iter stm32_hdr busy_env 0 s2)) = 2"
    using s2 u by (simp add: busy_iter_resets)
  then show ?thesis by (simp add: s0_def s1_def s2_def)
qed

theorem busy_bus_never_returns_witness:
  "start stm32_hdr busy_env 0x1D 1 idle = None
   \<and> i2c_read_bytes stm32_hdr busy_env 1 0 0x1D 6 idle = None
   \<and> i2c_write_bytes stm32_hdr busy_env 1 0 0x1D (\<lambda>i. 0) 6 idle = None
   \<and> resets (trace (busy_iter stm32_hdr busy_env 0
         (busy_iter stm32_hdr busy_env 0
           (busy_iter stm32_hdr busy_env 0 (snd (xtimer_now_usec stm32_hdr busy_env idle)))))) = 2"
  using busy_bus_never_returns [where h = stm32_hdr and e = busy_env and address = "0x1D"
      and rw = 1 and s = idle and dev = 0 and numof = 1 and len = 6 and data = "\<lambda>i. 0",
      OF busy_env_busy] busy_env_resets_twice
  by simp

section \<open>Faults reported by the interrupt handler\<close>

lemma irq_code:
  "i2c_bus_error (i2c_irq h s) =
    (let st = regs s ISR in
     if st AND h I2C_ISR_ALERT \<noteq> 0 then - 7
     else if st AND h I2C_ISR_TIMEOUT \<noteq> 0 then - 6
     else if st AND h I2C_ISR_PECERR \<noteq> 0 then - 5
     else if st AND h I2C_ISR_BERR \<noteq> 0 then - 4
     else if st AND h I2C_ISR_ARLO \<noteq> 0 then - 3
     else if st AND h I2C_ISR_NACKF \<noteq> 0 then - 2
     else if st AND h I2C_ISR_OVR \<noteq> 0 then - 1
     else i2c_bus_error s)"
  by (simp add: i2c_irq_def irq_clr_def Let_def)

lemma irq_keeps_fault: "i2c_bus_error s \<noteq> 0 \<Longrightarrow> i2c_bus_error (i2c_irq h s) \<noteq> 0"
  by (simp add: irq_code Let_def)

lemma sync_keeps_fault: "i2c_bus_error s \<noteq> 0 \<Longrightarrow> i2c_bus_error (sync h e s) \<noteq> 0"
  by (simp add: sync_def Let_def irq_keeps_fault)

lemma sync_runs_handler:
  assumes "ev_irq (hw e (tick s))" "irq_on s"
  shows "i2c_bus_error (sync h e s) =
    (let st = ev_ISR (hw e (tick s)) in
     if st AND h I2C_ISR_ALERT \<noteq> 0 then - 7
     else if st AND h I2C_ISR_TIMEOUT \<noteq> 0 then - 6
     else if st AND h I2C_ISR_PECERR \<noteq> 0 then - 5
     else if st AND h I2C_ISR_BERR \<noteq> 0 then - 4
     else if st AND h I2C_ISR_ARLO \<noteq> 0 then - 3
     else if st AND h I2C_ISR_NACKF \<noteq> 0 then - 2
     else if st AND h I2C_ISR_OVR \<noteq> 0 then - 1
     else i2c_bus_error s)"
  using assms by (simp add: sync_def Let_def irq_code)

lemma below_7: "i < (7::nat) \<Longrightarrow> i = 0 \<or> i = 1 \<or> i = 2 \<or> i = 3 \<or> i = 4 \<or> i = 5 \<or> i = 6"
  by arith

lemma fault_entry:
  assumes "i < length fault_codes" and "fault_codes ! i = (m, c)"
  shows "i = 0 \<and> m = I2C_ISR_OVR \<and> c = - 1 \<or> i = 1 \<and> m = I2C_ISR_NACKF \<and> c = - 2
       \<or> i = 2 \<and> m = I2C_ISR_ARLO \<and> c = - 3 \<or> i = 3 \<and> m = I2C_ISR_BERR \<and> c = - 4
       \<or> i = 4 \<and> m = I2C_ISR_PECERR \<and> c = - 5 \<or> i = 5 \<and> m = I2C_ISR_TIMEOUT \<and> c = - 6
       \<or> i = 6 \<and> m = I2C_ISR_ALERT \<and> c = - 7"
proof -
  from assms(1) have "i < 7" by (simp add: fault_codes_def)
  then consider "i = 0" | "i = 1" | "i = 2" | "i = 3" | "i = 4" | "i = 5" | "i = 6" by arith
  then show ?thesis
  proof cases
    case 1 with assms(2) show ?thesis by (simp add: fault_codes_def)
  next
    case 2 with assms(2) show ?thesis by (simp add: fault_codes_def)
  next
    case 3 with assms(2) show ?thesis by (simp add: fault_codes_def)
  next
    case 4 with assms(2) show ?thesis by (simp add: fault_codes_def)
  next
    case 5 with assms(2) show ?thesis by (simp add: fault_codes_def)
  next
    case 6 with assms(2) show ?thesis by (simp add: fault_codes_def)
  next
    case 7 with assms(2) show ?thesis by (simp add: fault_codes_def)
  qed
qed

lemma fault_recorded:
  assumes i: "i < length fault_codes" and mc: "fault_codes ! i = (m, c)"
    and irq: "ev_irq (hw e (tick s))" "irq_on s"
    and bit: "ev_ISR (hw e (tick s)) AND h m \<noteq> 0"
  shows "i2c_bus_error (sync h e s) \<in> {- 7, - 6, - 5, - 4, - 3, - 2, - 1}"
    and "(\<forall>(m', c') \<in> set (drop (Suc i) fault_codes). ev_ISR (hw e (tick s)) AND h m' = 0)
           \<longrightarrow> i2c_bus_error (sync h e s) = c"
proof -
  note h = sync_runs_handler [OF irq, of h]
  from fault_entry [OF i mc] bit
  have some: "ev_ISR (hw e (tick s)) AND h I2C_ISR_OVR \<noteq> 0
      \<or> ev_ISR (hw e (tick s)) AND h I2C_ISR_NACKF \<noteq> 0
      \<or> ev_ISR (hw e (tick s)) AND h I2C_ISR_ARLO \<noteq> 0
      \<or> ev_ISR (hw e (tick s)) AND h I2C_ISR_BERR \<noteq> 0
      \<or> ev_ISR (hw e (tick s)) AND h I2C_ISR_PECERR \<noteq> 0
      \<or> ev_ISR (hw e (tick s)) AND h I2C_ISR_TIMEOUT \<noteq> 0
      \<or> ev_ISR (hw e (tick s)) AND h I2C_ISR_ALERT \<noteq> 0"
    by blast
  then show "i2c_bus_error (sync h e s) \<in> {- 7, - 6, - 5, - 4, - 3, - 2, - 1}"
    unfolding h Let_def by (simp split: if_splits)
  show "(\<forall>(m', c') \<in> set (drop (Suc i) fault_codes). ev_ISR (hw e (tick s)) AND h m' = 0)
           \<longrightarrow> i2c_bus_error (sync h e s) = c"
  proof
    assume later: "\<forall>(m', c') \<in> set (drop (Suc i) fault_codes). ev_ISR (hw e (tick s)) AND h m' = 0"
    from fault_entry [OF i mc] show "i2c_bus_error (sync h e s) = c"
    proof (elim disjE conjE)
      assume "i = 0" "m = I2C_ISR_OVR" "c = - 1"
      with later bit show ?thesis unfolding h Let_def by (simp add: fault_codes_def)
    next
      assume "i = 1" "m = I2C_ISR_NACKF" "c = - 2"
      with later bit show ?thesis unfolding h Let_def by (simp add: fault_codes_def)
    next
      assume "i = 2" "m = I2C_ISR_ARLO" "c = - 3"
      with later bit show ?thesis unfolding h Let_def by (simp add: fault_codes_def)
    next
      assume "i = 3" "m = I2C_ISR_BERR" "c = - 4"
      with later bit show ?thesis unfolding h Let_def by (simp add: fault_codes_def)
    next
      assume "i = 4" "m = I2C_ISR_PECERR" "c = - 5"
      with later bit show ?thesis unfolding h Let_def by (simp add: fault_codes_def)
    next
      assume "i = 5" "m = I2C_ISR_TIMEOUT" "c = - 6"
      with later bit show ?thesis unfolding h Let_def by (simp add: fault_codes_def)
    next
      assume "i = 6" "m = I2C_ISR_ALERT" "c = - 7"
      with later bit show ?thesis unfolding h Let_def by (simp add: fault_codes_def)
    qed
  qed
qed

lemma addr_wait_fault:
  assumes err: "i2c_bus_error (sync h e s) \<noteq> 0"
    and na: "ev_SR1 (hw e (tick s)) AND h I2C_SR1_ADDR = 0"
  shows "\<exists>s'. addr_wait h e s = Some (- 1, s') \<and> resets (trace s') = Suc (resets (trace s))
            \<and> i2c_bus_error s' \<noteq> 0"
proof -
  let ?s1 = "snd (rd_hw h e SR1 s)"
  let ?s2 = "sync h e ?s1"
  have "i2c_bus_error ?s1 \<noteq> 0" using err by (simp add: rd_hw_def rd_def log_def)
  then have e2: "i2c_bus_error ?s2 \<noteq> 0" by (rule sync_keeps_fault)
  have "addr_wait h e s = Some (- 1, i2c_reset h ?s2)"
    using na e2 by (subst addr_wait_unfold) (simp add: rd_bus_error_def Let_def)
  moreover have "resets (trace (i2c_reset h ?s2)) = Suc (resets (trace s))"
    by (simp add: reset_counted)
  moreover have "i2c_bus_error (i2c_reset h ?s2) \<noteq> 0"
    using e2 by (simp add: i2c_reset_def i2c_init_def prim_ops Let_def)
  ultimately show ?thesis by blast
qed

text \<open>
  C8, as amended: for each of the seven fault bits, if the bit is set in the status
  register when the handler runs at a poll of the address-acknowledgment wait, the
  handler leaves a code from \<open>-7\<close> to \<open>-1\<close> in the fault variable, the bit's own code
  when no bit tested after it is set as well; and if that poll does not show the
  address flag, the engine resets the bus once and \<^verbatim>\<open>_start\<close> returns \<open>-1\<close>.
\<close>

theorem fault_in_address_wait:
  assumes i: "i < length fault_codes" and mc: "fault_codes ! i = (m, c)"
    and irq: "ev_irq (hw e (tick s))" "irq_on s"
    and bit: "ev_ISR (hw e (tick s)) AND h m \<noteq> 0"
    and na: "ev_SR1 (hw e (tick s)) AND h I2C_SR1_ADDR = 0"
  shows "i2c_bus_error (sync h e s) \<in> {- 7, - 6, - 5, - 4, - 3, - 2, - 1}
       \<and> ((\<forall>(m', c') \<in> set (drop (Suc i) fault_codes). ev_ISR (hw e (tick s)) AND h m' = 0)
            \<longrightarrow> i2c_bus_error (sync h e s) = c)
       \<and> (\<exists>s'. addr_wait h e s = Some (- 1, s')
              \<and> resets (trace s') = Suc (resets (trace s))
              \<and> i2c_bus_error s' \<noteq> 0
              \<and> (\<forall>a rw s0. start_addr h e a rw s0 = Some s \<longrightarrow> start h e a rw s0 = Some (- 1, s')))"
proof -
  from fault_recorded(1) [where h = h, OF i mc irq bit]
  have c: "i2c_bus_error (sync h e s) \<in> {- 7, - 6, - 5, - 4, - 3, - 2, - 1}" .
  then have "i2c_bus_error (sync h e s) \<noteq> 0" by auto
  from addr_wait_fault [OF this na] obtain s' where
    w: "addr_wait h e s = Some (- 1, s')" "resets (trace s') = Suc (resets (trace s))"
       "i2c_bus_error s' \<noteq> 0" by blast
  then have "\<forall>a rw s0. start_addr h e a rw s0 = Some s \<longrightarrow> start h e a rw s0 = Some (- 1, s')"
    by (simp add: start_def)
  with w c fault_recorded(2) [where h = h, OF i mc irq bit] show ?thesis by blast
qed

lemma nack_start_addr:
  "\<exists>s. start_addr stm32_hdr nack_env a rw idle = Some s \<and> tick s = 3 \<and> irq_on s
       \<and> resets (trace s) = 0"
  by (simp add: run_defs idle_def nack_env_def i2c_irq_def irq_clr_def
      busy_wait_unfold wait_set_unfold)

theorem fault_in_address_wait_witness:
  "\<exists>s'. start stm32_hdr nack_env 0x1D 1 idle = Some (- 1, s') \<and> resets (trace s') = 1
        \<and> i2c_bus_error s' \<noteq> 0"
proof -
  from nack_start_addr [of "0x1D" 1] obtain s where
    s: "start_addr stm32_hdr nack_env 0x1D 1 idle = Some s" "tick s = 3" "irq_on s"
       "resets (trace s) = 0" by blast
  have i: "1 < length fault_codes" and mc: "fault_codes ! 1 = (I2C_ISR_NACKF, - 2)"
    by (simp_all add: fault_codes_def)
  have irq: "ev_irq (hw nack_env (tick s))"
    and bit: "ev_ISR (hw nack_env (tick s)) AND stm32_hdr I2C_ISR_NACKF \<noteq> 0"
    and na: "ev_SR1 (hw nack_env (tick s)) AND stm32_hdr I2C_SR1_ADDR = 0"
    using s(2) by (simp_all add: nack_env_def)
  from fault_in_address_wait [where h = stm32_hdr, OF i mc irq s(3) bit na] s(1,4) show ?thesis by auto
qed

text \<open>
  C8 as stated fails in two ways. When the poll at which the handler ran shows the
  address flag, the wait ends: no reset, and \<^verbatim>\<open>_start\<close> returns 0 with the fault code
  left in the variable. And with several fault bits set the code kept is that of the
  last bit tested: overrun together with SMBus alert leaves \<open>-7\<close>, not \<open>-1\<close>.
\<close>

theorem fault_in_address_wait_counterexample:
  "(\<exists>s'. start stm32_hdr alert_env 0x1D 1 idle = Some (0, s') \<and> i2c_bus_error s' = - 7
         \<and> resets (trace s') = 0)
   \<and> i2c_bus_error (i2c_irq stm32_hdr (idle\<lparr>regs := (regs idle)(ISR := 0x2400)\<rparr>)) = - 7"
  by (simp add: run_defs idle_def alert_env_def i2c_irq_def irq_clr_def
      busy_wait_unfold wait_set_unfold addr_wait_unfold)

section \<open>Requests of a STOP condition in the start phase\<close>

lemma quiet_simps [simp]:
  "quiet h []"
  "quiet h (xs @ ys) \<longleftrightarrow> quiet h xs \<and> quiet h ys"
  "quiet h (a # xs) \<longleftrightarrow> \<not> asserts_stop h a \<and> quiet h xs"
  by (auto simp: quiet_def)

lemma quiet_polls [simp]: "quiet h (map (Rd r) vs)"
  by (induction vs) (simp_all add: asserts_stop_def)

lemma calmI:
  assumes "trace s' = trace s @ tr" and "resets tr = 0 \<Longrightarrow> quiet h tr"
  shows "calm h s s'"
  unfolding calm_def using assms by (intro exI [of _ tr]) simp

lemma calm_refl [simp]: "calm h s s"
  by (rule calmI [of _ _ "[]"]) simp_all

lemma calm_trans:
  assumes "calm h s s1" and "calm h s1 s2"
  shows "calm h s s2"
proof -
  from assms(1) have "\<exists>t1. trace s1 = trace s @ t1 \<and> (resets t1 = 0 \<longrightarrow> quiet h t1)"
    by (simp add: calm_def)
  then obtain t1 where "trace s1 = trace s @ t1 \<and> (resets t1 = 0 \<longrightarrow> quiet h t1)" ..
  then have 1: "trace s1 = trace s @ t1" "resets t1 = 0 \<longrightarrow> quiet h t1" by simp_all
  from assms(2) have "\<exists>t2. trace s2 = trace s1 @ t2 \<and> (resets t2 = 0 \<longrightarrow> quiet h t2)"
    by (simp add: calm_def)
  then obtain t2 where "trace s2 = trace s1 @ t2 \<and> (resets t2 = 0 \<longrightarrow> quiet h t2)" ..
  then have 2: "trace s2 = trace s1 @ t2" "resets t2 = 0 \<longrightarrow> quiet h t2" by simp_all
  show ?thesis
  proof (rule calmI [of _ _ "t1 @ t2"])
    show "trace s2 = trace s @ t1 @ t2" using 1(1) 2(1) by simp
    show "quiet h (t1 @ t2)" if "resets (t1 @ t2) = 0" using that 1(2) 2(2) by simp
  qed
qed

lemma calm_same_trace: "trace s' = trace s \<Longrightarrow> calm h s s'"
  by (rule calmI [of _ _ "[]"]) simp_all

lemma calm_reset: "calm h s (i2c_reset h s)"
proof -
  have "\<exists>tr. trace (i2c_reset h s) = trace s @ BusReset # tr"
    by (simp add: i2c_reset_def i2c_init_def prim_ops Let_def)
  then obtain tr where "trace (i2c_reset h s) = trace s @ BusReset # tr" ..
  then show ?thesis by (rule calmI) simp
qed

lemma calm_rd_hw: "calm h s (snd (rd_hw h e r s))"
  by (rule calmI [of _ _ "[Rd r (fst (rd_hw h e r s))]"]) (simp_all add: asserts_stop_def)

lemma calm_busy_body: "calm h s (busy_body h e t s)"
proof -
  have 1: "calm h s (sync h e s)" by (rule calm_same_trace) simp
  have 2: "calm h s (i2c_reset h (sync h e s))" by (rule calm_trans [OF 1 calm_reset])
  show ?thesis using 1 2 by (simp add: busy_body_def xtimer_now_usec_def)
qed

lemma calm_polled:
  assumes "polled r s s' vs"
  shows "calm h s s'"
proof (rule calmI [of _ _ "map (Rd r) vs"])
  show "trace s' = trace s @ map (Rd r) vs" using assms by (simp add: polled_def)
  show "quiet h (map (Rd r) vs)" by simp
qed

text \<open>
  When \<^verbatim>\<open>_start\<close> returns, it has requested a STOP condition only if it has reset the
  bus on its way.
\<close>

lemma busy_wait_calm:
  assumes "busy_wait h e t s = Some s'"
  shows "calm h s s'"
proof (rule busy_wait.raw_induct [OF _ assms, where P = "\<lambda>h e t s s'. calm h s s'"], goal_cases)
  case (1 busy_wait h e t s s')
  show ?case
  proof (cases "fst (rd_hw h e SR2 s) AND h I2C_SR2_BUSY \<noteq> 0")
    case True
    with 1(2) have "busy_wait h e t (busy_body h e t (snd (rd_hw h e SR2 s))) = Some s'"
      by (simp add: case_prod_beta)
    from 1(1) [OF this] have "calm h (busy_body h e t (snd (rd_hw h e SR2 s))) s'" .
    with calm_trans [OF calm_rd_hw calm_busy_body] show ?thesis by (rule calm_trans)
  next
    case False
    with 1(2) have "s' = snd (rd_hw h e SR2 s)" by (simp add: case_prod_beta)
    then show ?thesis by (simp add: calm_rd_hw)
  qed
qed

lemma addr_wait_calm:
  assumes "addr_wait h e s = Some (r, s')"
  shows "calm h s s'"
proof -
  have "calm h s (snd (r, s'))"
  proof (rule addr_wait.raw_induct [OF _ assms, where P = "\<lambda>h e s y. calm h s (snd y)"],
      goal_cases)
    case (1 addr_wait h e s y)
    let ?s1 = "snd (rd_hw h e SR1 s)"
    let ?s2 = "sync h e ?s1"
    have "calm h ?s1 ?s2" by (rule calm_same_trace) simp
    with calm_rd_hw have k2: "calm h s ?s2" by (rule calm_trans)
    show ?case
    proof (cases "fst (rd_hw h e SR1 s) AND h I2C_SR1_ADDR = 0")
      case False
      with 1(2) have "y = (0, ?s1)" by (auto simp: case_prod_beta)
      then show ?thesis by (simp add: calm_rd_hw)
    next
      case True
      show ?thesis
      proof (cases "i2c_bus_error ?s2 \<noteq> 0")
        case err: True
        with True 1(2) have "y = (- 1, i2c_reset h ?s2)"
          by (simp add: case_prod_beta rd_bus_error_def Let_def)
        with calm_trans [OF k2 calm_reset] show ?thesis by simp
      next
        case False
        with True 1(2) have "addr_wait h e ?s2 = Some y"
          by (simp add: case_prod_beta rd_bus_error_def Let_def)
        from 1(1) [OF this] have "calm h ?s2 (snd y)" .
        with k2 show ?thesis by (rule calm_trans)
      qed
    qed
  qed
  then show ?thesis by simp
qed

lemma start_result_calm:
  assumes st: "start_result h e a flag s = Some (r, s')"
    and ss: "h I2C_CR1_START AND h I2C_CR1_STOP = 0"
  shows "calm h s s'"
proof -
  from st obtain s4 where s4: "start h e a (ucast (h flag)) s = Some (r, s4)"
    and s': "s' = s4\<lparr>i2c_bus_result := r\<rparr>"
    by (auto simp: start_result_def split: bind_splits)
  from s4 obtain s3 where a: "start_addr h e a (ucast (h flag)) s = Some s3"
    and w: "addr_wait h e s3 = Some (r, s4)"
    by (auto simp: start_def split: bind_splits)
  from a obtain s1 s2 where b: "busy_wait h e (ev_usec (hw e (tick s))) (sync h e s) = Some s1"
    and sb: "wait_set h e SR1 (h I2C_SR1_SB) (set_bits CR1 (h I2C_CR1_START) s1) = Some s2"
    and s3: "s3 = wr DR (addr_byte a (ucast (h flag))) (s2\<lparr>i2c_bus_error := 0\<rparr>)"
    by (auto simp: start_addr_def xtimer_now_usec_def split: bind_splits)
  let ?b = "set_bits CR1 (h I2C_CR1_START) s1"
  have "calm h s (sync h e s)" by (rule calm_same_trace) simp
  then have 1: "calm h s s1" using busy_wait_calm [OF b] by (rule calm_trans)
  have 2: "calm h s1 ?b"
    by (rule calmI [of _ _ "[SetBits CR1 (h I2C_CR1_START) (regs s1 CR1 OR h I2C_CR1_START)]"])
       (use ss in \<open>simp_all add: prim_ops asserts_stop_def\<close>)
  from wait_set_Some [OF sb] obtain vs where "polled SR1 ?b s2 vs" by blast
  then have 3: "calm h ?b s2" by (rule calm_polled)
  have 4: "calm h s2 s3"
    by (rule calmI [of _ _ "[Wr DR (addr_byte a (ucast (h flag)))]"])
       (simp_all add: s3 prim_ops asserts_stop_def)
  have 5: "calm h s3 s4" by (rule addr_wait_calm [OF w])
  have 6: "calm h s4 s'" by (rule calm_same_trace) (simp add: s')
  from 1 2 have "calm h s ?b" by (rule calm_trans)
  then have "calm h s s2" using 3 by (rule calm_trans)
  then have "calm h s s3" using 4 by (rule calm_trans)
  then have "calm h s s4" using 5 by (rule calm_trans)
  then show ?thesis using 6 by (rule calm_trans)
qed

section \<open>Reads of one and of two bytes\<close>

lemma pos_off_ack_on:
  fixes c p a :: u32
  assumes "p AND a = 0"
  shows "((c AND NOT p) OR a) AND p = 0" "((c AND NOT p) OR a) AND a = a"
proof -
  have 1: "((c AND NOT p) OR a) AND p = ((c AND NOT p) AND p) OR (a AND p)"
    by (rule bit.conj_disj_distrib2)
  have 2: "(c AND NOT p) AND p = 0" by (simp add: and.assoc)
  have 3: "a AND p = 0" using assms by (simp add: and.commute)
  from 1 2 3 show "((c AND NOT p) OR a) AND p = 0" by simp
  show "((c AND NOT p) OR a) AND a = a"
    by (simp add: and.commute)
qed

lemma bit_stays_clear:
  fixes x a m :: u32
  assumes "x AND m = 0"
  shows "(x AND NOT a) AND m = 0"
proof -
  have "(x AND NOT a) AND m = NOT a AND (x AND m)" by (simp add: ac_simps)
  with assms show ?thesis by simp
qed

lemma or_keeps_clear:
  fixes y p m :: u32
  assumes "y AND m = 0" and "p AND m = 0"
  shows "(y OR p) AND m = 0"
proof -
  have "(y OR p) AND m = (y AND m) OR (p AND m)" by (rule bit.conj_disj_distrib2)
  with assms show ?thesis by simp
qed

lemma or_sets: "((y::u32) OR p) AND p = p"
  by (simp add: and.commute)

lemma clear_addr_regs:
  "regs (clear_addr h e s) CR1
     = (regs s CR1 AND NOT (ev_clr (hw e (tick s)))) AND NOT (ev_clr (hw e (Suc (tick s))))"
  by (simp add: clear_addr_def)

lemma clear_addr_keeps_clear:
  assumes "regs s CR1 AND m = 0"
  shows "regs (clear_addr h e s) CR1 AND m = 0"
  unfolding clear_addr_regs by (intro bit_stays_clear assms)

lemma read_success:
  assumes "i2c_read_bytes h e numof dev address len s = Some (Inr (len, s'))" and "0 < len"
  shows "\<exists>s1. start_result h e address I2C_FLAG_READ s = Some (0, s1)
          \<and> (len = 1 \<longrightarrow> read_1 h e s1 = Some s')
          \<and> (len = 2 \<longrightarrow> read_2 h e s1 = Some s')"
proof -
  from assms have dev: "\<not> numof \<le> dev" by (auto simp: i2c_read_bytes_def)
  with assms obtain r s1 where st: "start_result h e address I2C_FLAG_READ s = Some (r, s1)"
    by (auto simp: i2c_read_bytes_def split: bind_splits if_splits)
  from start_result_Some [OF st] have r: "r = 0 \<or> r = - 1" by simp
  from assms dev st have nr: "\<not> r < 0"
    by (auto simp: i2c_read_bytes_def split: if_splits)
  with r have r0: "r = 0" by auto
  from assms dev st r0 have "len = 1 \<longrightarrow> read_1 h e s1 = Some s'"
    by (auto simp: i2c_read_bytes_def split: bind_splits)
  moreover from assms dev st r0 have "len = 2 \<longrightarrow> read_2 h e s1 = Some s'"
    by (auto simp: i2c_read_bytes_def split: bind_splits)
  ultimately show ?thesis using st r0 by blast
qed

lemma clear_addr_trace:
  "\<exists>v1 v2. trace (clear_addr h e s) = trace s @ [Rd SR1 v1, Rd SR2 v2]"
  by (simp add: clear_addr_def)

lemma read_1_Some:
  assumes r1: "read_1 h e s1 = Some s'"
  shows "\<exists>c0 v1 v2 c1 st vs b ws c2.
           trace s' = trace s1 @
             [ClrBits CR1 (h I2C_CR1_ACK) c0, IrqDisable, Rd SR1 v1, Rd SR2 v2,
              SetBits CR1 (h I2C_CR1_STOP) c1, IrqRestore st]
             @ map (Rd SR1) vs @ [Rd DR b] @ map (Rd CR1) ws @ [SetBits CR1 (h I2C_CR1_ACK) c2]
         \<and> c0 AND h I2C_CR1_ACK = 0
         \<and> (h I2C_CR1_STOP AND h I2C_CR1_ACK = 0 \<longrightarrow> c1 AND h I2C_CR1_ACK = 0)
         \<and> c1 AND h I2C_CR1_STOP = h I2C_CR1_STOP
         \<and> my_data s' 0 = ucast b
         \<and> regs s' CR1 = c2 \<and> c2 AND h I2C_CR1_ACK = h I2C_CR1_ACK"
proof -
  define a0 where "a0 = clr_bits CR1 (h I2C_CR1_ACK) s1"
  define a1 where "a1 = clear_addr h e (snd (irq_disable a0))"
  define a where "a = irq_restore (fst (irq_disable a0)) (set_bits CR1 (h I2C_CR1_STOP) a1)"
  define c0 where "c0 = regs s1 CR1 AND NOT (h I2C_CR1_ACK)"
  define c1 where "c1 = regs a1 CR1 OR h I2C_CR1_STOP"
  from r1 obtain b c where
    w1: "wait_set h e SR1 (h I2C_SR1_RXNE) a = Some b"
    and w2: "wait_clr h e CR1 (h I2C_CR1_STOP) (store 0 (fst (rd_DR e b)) (snd (rd_DR e b))) = Some c"
    and s': "s' = set_bits CR1 (h I2C_CR1_ACK) c"
    unfolding read_1_def a_def a1_def a0_def
    by (auto simp: Let_def case_prod_beta split: bind_splits)
  have c0: "c0 AND h I2C_CR1_ACK = 0" by (simp add: c0_def and.assoc)
  have "regs (snd (irq_disable a0)) CR1 = c0" by (simp add: a0_def c0_def prim_ops)
  with c0 have a1c: "regs a1 CR1 AND h I2C_CR1_ACK = 0"
    unfolding a1_def by (intro clear_addr_keeps_clear) simp
  have c1a: "h I2C_CR1_STOP AND h I2C_CR1_ACK = 0 \<longrightarrow> c1 AND h I2C_CR1_ACK = 0"
    unfolding c1_def using a1c by (auto intro: or_keeps_clear)
  have c1s: "c1 AND h I2C_CR1_STOP = h I2C_CR1_STOP" unfolding c1_def by (rule or_sets)
  from clear_addr_trace [of h e "snd (irq_disable a0)"] obtain v1 v2 where
    "trace a1 = trace (snd (irq_disable a0)) @ [Rd SR1 v1, Rd SR2 v2]"
    unfolding a1_def by blast
  then have ta: "trace a = trace s1 @ [ClrBits CR1 (h I2C_CR1_ACK) c0, IrqDisable,
              Rd SR1 v1, Rd SR2 v2, SetBits CR1 (h I2C_CR1_STOP) c1, IrqRestore (irq_on s1)]"
    by (simp add: a_def a0_def c0_def c1_def prim_ops)
  from wait_set_Some [OF w1] obtain vs where pb: "polled SR1 a b vs" by blast
  from wait_clr_Some [OF w2] obtain ws where
    pc: "polled CR1 (store 0 (fst (rd_DR e b)) (snd (rd_DR e b))) c ws" by blast
  define c2 where "c2 = regs c CR1 OR h I2C_CR1_ACK"
  have tr: "trace s' = trace s1 @
             [ClrBits CR1 (h I2C_CR1_ACK) c0, IrqDisable, Rd SR1 v1, Rd SR2 v2,
              SetBits CR1 (h I2C_CR1_STOP) c1, IrqRestore (irq_on s1)]
             @ map (Rd SR1) vs @ [Rd DR (rx e (nrx b))] @ map (Rd CR1) ws
             @ [SetBits CR1 (h I2C_CR1_ACK) c2]"
    using ta pb pc by (simp add: s' c2_def polled_def prim_ops)
  have md: "my_data s' 0 = ucast (rx e (nrx b))"
    using pc by (simp add: s' polled_def prim_ops)
  have r2: "regs s' CR1 = c2" by (simp add: s' c2_def prim_ops)
  have c2a: "c2 AND h I2C_CR1_ACK = h I2C_CR1_ACK" unfolding c2_def by (rule or_sets)
  show ?thesis
    by (rule exI [of _ c0], rule exI [of _ v1], rule exI [of _ v2], rule exI [of _ c1],
        rule exI [of _ "irq_on s1"], rule exI [of _ vs], rule exI [of _ "rx e (nrx b)"],
        rule exI [of _ ws], rule exI [of _ c2])
       (simp add: tr c0 c1a c1s md r2 c2a)
qed

lemma read_2_Some:
  assumes r2: "read_2 h e s1 = Some s'"
    and pa: "h I2C_CR1_POS AND h I2C_CR1_ACK = 0"
    and ps: "(h I2C_CR1_POS OR h I2C_CR1_ACK) AND h I2C_CR1_STOP = 0"
  shows "\<exists>pre v c post.
           trace s' = trace s1 @ pre @ Rd SR1 v # IrqDisable # SetBits CR1 (h I2C_CR1_STOP) c # post
         \<and> v AND h I2C_SR1_BTF \<noteq> 0
         \<and> quiet h pre
         \<and> c AND h I2C_CR1_STOP = h I2C_CR1_STOP
         \<and> regs s' CR1 AND h I2C_CR1_POS = 0
         \<and> regs s' CR1 AND h I2C_CR1_ACK = h I2C_CR1_ACK"
proof -
  define a0 where "a0 = set_bits CR1 (h I2C_CR1_POS OR h I2C_CR1_ACK) s1"
  define a1 where "a1 = clear_addr h e (snd (irq_disable a0))"
  define a where "a = irq_restore (fst (irq_disable a0)) (clr_bits CR1 (h I2C_CR1_ACK) a1)"
  define f where "f = (\<lambda>b. let b1 = set_bits CR1 (h I2C_CR1_STOP) (snd (irq_disable b));
                            b2 = store 0 (fst (rd_DR e b1)) (snd (rd_DR e b1));
                            b3 = irq_restore (fst (irq_disable b)) b2
                        in store 1 (fst (rd_DR e b3)) (snd (rd_DR e b3)))"
  from r2 obtain b c where
    w1: "wait_set h e SR1 (h I2C_SR1_BTF) a = Some b"
    and w2: "wait_clr h e CR1 (h I2C_CR1_STOP) (f b) = Some c"
    and s': "s' = set_bits CR1 (h I2C_CR1_ACK) (clr_bits CR1 (h I2C_CR1_POS) c)"
    unfolding read_2_def a_def a1_def a0_def f_def
    by (auto simp: Let_def case_prod_beta split: bind_splits)
  from clear_addr_trace [of h e "snd (irq_disable a0)"] obtain v1 v2 where
    "trace a1 = trace (snd (irq_disable a0)) @ [Rd SR1 v1, Rd SR2 v2]"
    unfolding a1_def by blast
  then have ta: "trace a = trace s1 @
        [SetBits CR1 (h I2C_CR1_POS OR h I2C_CR1_ACK) (regs s1 CR1 OR (h I2C_CR1_POS OR h I2C_CR1_ACK)),
         IrqDisable, Rd SR1 v1, Rd SR2 v2,
         ClrBits CR1 (h I2C_CR1_ACK) (regs a1 CR1 AND NOT (h I2C_CR1_ACK)),
         IrqRestore (irq_on s1)]"
    by (simp add: a_def a0_def prim_ops)
  from wait_set_Some [OF w1] obtain vs v where pb: "polled SR1 a b (vs @ [v])"
    and v: "v AND h I2C_SR1_BTF \<noteq> 0" by blast
  from wait_clr_Some [OF w2] obtain ws where pc: "polled CR1 (f b) c ws" by blast
  define pre where "pre =
        [SetBits CR1 (h I2C_CR1_POS OR h I2C_CR1_ACK) (regs s1 CR1 OR (h I2C_CR1_POS OR h I2C_CR1_ACK)),
         IrqDisable, Rd SR1 v1, Rd SR2 v2,
         ClrBits CR1 (h I2C_CR1_ACK) (regs a1 CR1 AND NOT (h I2C_CR1_ACK)),
         IrqRestore (irq_on s1)] @ map (Rd SR1) vs"
  define cs where "cs = regs b CR1 OR h I2C_CR1_STOP"
  define post where "post = [Rd DR (rx e (nrx b)), IrqRestore (irq_on b), Rd DR (rx e (Suc (nrx b)))]
           @ map (Rd CR1) ws
           @ [ClrBits CR1 (h I2C_CR1_POS) (regs c CR1 AND NOT (h I2C_CR1_POS)),
              SetBits CR1 (h I2C_CR1_ACK) ((regs c CR1 AND NOT (h I2C_CR1_POS)) OR h I2C_CR1_ACK)]"
  have tf: "trace (f b) = trace b @ [IrqDisable, SetBits CR1 (h I2C_CR1_STOP) cs,
        Rd DR (rx e (nrx b)), IrqRestore (irq_on b), Rd DR (rx e (Suc (nrx b)))]"
    by (simp add: f_def cs_def Let_def prim_ops)
  have tr: "trace s' = trace s1 @ pre @ Rd SR1 v # IrqDisable # SetBits CR1 (h I2C_CR1_STOP) cs # post"
    using ta pb pc tf by (simp add: s' polled_def pre_def post_def prim_ops)
  have np: "quiet h pre"
    using ps by (simp add: pre_def asserts_stop_def)
  have css: "cs AND h I2C_CR1_STOP = h I2C_CR1_STOP" unfolding cs_def by (rule or_sets)
  have cr: "regs s' CR1 = (regs c CR1 AND NOT (h I2C_CR1_POS)) OR h I2C_CR1_ACK"
    by (simp add: s' prim_ops)
  from pos_off_ack_on [OF pa, of "regs c CR1"] cr
  have fin: "regs s' CR1 AND h I2C_CR1_POS = 0" "regs s' CR1 AND h I2C_CR1_ACK = h I2C_CR1_ACK"
    by simp_all
  show ?thesis
    by (rule exI [of _ pre], rule exI [of _ v], rule exI [of _ cs], rule exI [of _ post])
       (simp add: tr v np css fin)
qed

lemma read_1_returns:
  assumes rx: "raises h e I2C_SR1_RXNE" and cs: "completes_stop h e"
  shows "\<exists>s'. read_1 h e s = Some s'"
proof -
  define a0 where "a0 = clr_bits CR1 (h I2C_CR1_ACK) s"
  define a where "a = irq_restore (fst (irq_disable a0))
      (set_bits CR1 (h I2C_CR1_STOP) (clear_addr h e (snd (irq_disable a0))))"
  from raises_wait [OF rx, of a] obtain b where
    w1: "wait_set h e SR1 (h I2C_SR1_RXNE) a = Some b" by blast
  from completes_stop_wait [OF cs, of "store 0 (fst (rd_DR e b)) (snd (rd_DR e b))"] obtain c where
    w2: "wait_clr h e CR1 (h I2C_CR1_STOP) (store 0 (fst (rd_DR e b)) (snd (rd_DR e b))) = Some c"
    by blast
  have "read_1 h e s = Some (set_bits CR1 (h I2C_CR1_ACK) c)"
    using w1 w2 unfolding read_1_def a_def a0_def by (simp add: Let_def case_prod_beta)
  then show ?thesis by blast
qed

lemma read_2_returns:
  assumes btf: "raises h e I2C_SR1_BTF" and cs: "completes_stop h e"
  shows "\<exists>s'. read_2 h e s = Some s'"
proof -
  define a0 where "a0 = set_bits CR1 (h I2C_CR1_POS OR h I2C_CR1_ACK) s"
  define a where "a = irq_restore (fst (irq_disable a0))
      (clr_bits CR1 (h I2C_CR1_ACK) (clear_addr h e (snd (irq_disable a0))))"
  define f where "f = (\<lambda>b. let b1 = set_bits CR1 (h I2C_CR1_STOP) (snd (irq_disable b));
                            b2 = store 0 (fst (rd_DR e b1)) (snd (rd_DR e b1));
                            b3 = irq_restore (fst (irq_disable b)) b2
                        in store 1 (fst (rd_DR e b3)) (snd (rd_DR e b3)))"
  from raises_wait [OF btf, of a] obtain b where
    w1: "wait_set h e SR1 (h I2C_SR1_BTF) a = Some b" by blast
  from completes_stop_wait [OF cs, of "f b"] obtain c where
    w2: "wait_clr h e CR1 (h I2C_CR1_STOP) (f b) = Some c" by blast
  have "read_2 h e s = Some (set_bits CR1 (h I2C_CR1_ACK) (clr_bits CR1 (h I2C_CR1_POS) c))"
    using w1 w2 unfolding read_2_def a_def a0_def f_def by (simp add: Let_def case_prod_beta)
  then show ?thesis by blast
qed

text \<open>
  A successful read of one byte. The start phase requests no STOP condition unless it
  resets the bus. After it the driver clears the ACK bit, then reads \<open>SR1\<close> and \<open>SR2\<close>
  (which clears the address flag), then sets the STOP bit: the value it stores then has
  ACK clear and STOP set. It polls \<open>SR1\<close>, reads the byte into position 0, polls \<open>CR1\<close>
  and sets ACK again.
\<close>

lemma read_one_order:
  assumes run: "i2c_read_bytes h e numof dev address 1 s = Some (Inr (1, s'))"
    and ss: "h I2C_CR1_START AND h I2C_CR1_STOP = 0"
  shows "\<exists>s1 tr0 c0 v1 v2 c1 st vs b ws c2.
           start_result h e address I2C_FLAG_READ s = Some (0, s1)
         \<and> trace s1 = trace s @ tr0
         \<and> (resets tr0 = 0 \<longrightarrow> quiet h tr0)
         \<and> trace s' = trace s1 @
             [ClrBits CR1 (h I2C_CR1_ACK) c0, IrqDisable, Rd SR1 v1, Rd SR2 v2,
              SetBits CR1 (h I2C_CR1_STOP) c1, IrqRestore st]
             @ map (Rd SR1) vs @ [Rd DR b] @ map (Rd CR1) ws @ [SetBits CR1 (h I2C_CR1_ACK) c2]
         \<and> c0 AND h I2C_CR1_ACK = 0
         \<and> (h I2C_CR1_STOP AND h I2C_CR1_ACK = 0 \<longrightarrow> c1 AND h I2C_CR1_ACK = 0)
         \<and> c1 AND h I2C_CR1_STOP = h I2C_CR1_STOP
         \<and> my_data s' 0 = ucast b
         \<and> regs s' CR1 = c2 \<and> c2 AND h I2C_CR1_ACK = h I2C_CR1_ACK"
proof -
  have len: "(0::int) < 1" by simp
  from read_success [OF run len] obtain s1 where
    st: "start_result h e address I2C_FLAG_READ s = Some (0, s1)"
    and r1: "read_1 h e s1 = Some s'" by auto
  from start_result_calm [OF st ss]
  have "\<exists>tr0. trace s1 = trace s @ tr0 \<and> (resets tr0 = 0 \<longrightarrow> quiet h tr0)"
    by (simp add: calm_def)
  then obtain tr0 where t0: "trace s1 = trace s @ tr0 \<and> (resets tr0 = 0 \<longrightarrow> quiet h tr0)" ..
  from read_1_Some [OF r1] obtain c0 v1 v2 c1 sv vs b ws c2 where
    body: "trace s' = trace s1 @
             [ClrBits CR1 (h I2C_CR1_ACK) c0, IrqDisable, Rd SR1 v1, Rd SR2 v2,
              SetBits CR1 (h I2C_CR1_STOP) c1, IrqRestore sv]
             @ map (Rd SR1) vs @ [Rd DR b] @ map (Rd CR1) ws @ [SetBits CR1 (h I2C_CR1_ACK) c2]
         \<and> c0 AND h I2C_CR1_ACK = 0
         \<and> (h I2C_CR1_STOP AND h I2C_CR1_ACK = 0 \<longrightarrow> c1 AND h I2C_CR1_ACK = 0)
         \<and> c1 AND h I2C_CR1_STOP = h I2C_CR1_STOP
         \<and> my_data s' 0 = ucast b
         \<and> regs s' CR1 = c2 \<and> c2 AND h I2C_CR1_ACK = h I2C_CR1_ACK"
    by (elim exE) 
  show ?thesis
    by (rule exI [of _ s1], rule exI [of _ tr0], rule exI [of _ c0], rule exI [of _ v1],
        rule exI [of _ v2], rule exI [of _ c1], rule exI [of _ sv], rule exI [of _ vs],
        rule exI [of _ b], rule exI [of _ ws], rule exI [of _ c2])
       (intro conjI st conjunct1 [OF t0] conjunct2 [OF t0] body [THEN conjunct1]
          body [THEN conjunct2, THEN conjunct1]
          body [THEN conjunct2, THEN conjunct2, THEN conjunct1]
          body [THEN conjunct2, THEN conjunct2, THEN conjunct2, THEN conjunct1]
          body [THEN conjunct2, THEN conjunct2, THEN conjunct2, THEN conjunct2, THEN conjunct1]
          body [THEN conjunct2, THEN conjunct2, THEN conjunct2, THEN conjunct2, THEN conjunct2, THEN conjunct1]
          body [THEN conjunct2, THEN conjunct2, THEN conjunct2, THEN conjunct2, THEN conjunct2, THEN conjunct2])
qed

text \<open>
  A successful read of two bytes. The start phase requests no STOP condition unless it
  resets the bus. After it the first statement that requests one is the one that
  follows the poll of \<open>SR1\<close> that showed the byte-transfer-complete flag; when the call
  returns, \<open>CR1\<close> has POS clear and ACK set.
\<close>

lemma read_two_order:
  assumes run: "i2c_read_bytes h e numof dev address 2 s = Some (Inr (2, s'))"
    and ss: "h I2C_CR1_START AND h I2C_CR1_STOP = 0"
    and pa: "h I2C_CR1_POS AND h I2C_CR1_ACK = 0"
    and ps: "(h I2C_CR1_POS OR h I2C_CR1_ACK) AND h I2C_CR1_STOP = 0"
  shows "\<exists>s1 tr0 pre v c post.
           start_result h e address I2C_FLAG_READ s = Some (0, s1)
         \<and> trace s1 = trace s @ tr0
         \<and> (resets tr0 = 0 \<longrightarrow> quiet h tr0)
         \<and> trace s' = trace s1 @ pre @ Rd SR1 v # IrqDisable # SetBits CR1 (h I2C_CR1_STOP) c # post
         \<and> v AND h I2C_SR1_BTF \<noteq> 0
         \<and> quiet h pre
         \<and> c AND h I2C_CR1_STOP = h I2C_CR1_STOP
         \<and> regs s' CR1 AND h I2C_CR1_POS = 0
         \<and> regs s' CR1 AND h I2C_CR1_ACK = h I2C_CR1_ACK"
proof -
  have len: "(0::int) < 2" by simp
  from read_success [OF run len] obtain s1 where
    st: "start_result h e address I2C_FLAG_READ s = Some (0, s1)"
    and r2: "read_2 h e s1 = Some s'" by auto
  from start_result_calm [OF st ss]
  have "\<exists>tr0. trace s1 = trace s @ tr0 \<and> (resets tr0 = 0 \<longrightarrow> quiet h tr0)"
    by (simp add: calm_def)
  then obtain tr0 where t0: "trace s1 = trace s @ tr0 \<and> (resets tr0 = 0 \<longrightarrow> quiet h tr0)" ..
  from read_2_Some [OF r2 pa ps] obtain pre v c post where
    body: "trace s' = trace s1 @ pre @ Rd SR1 v # IrqDisable # SetBits CR1 (h I2C_CR1_STOP) c # post
         \<and> v AND h I2C_SR1_BTF \<noteq> 0
         \<and> quiet h pre
         \<and> c AND h I2C_CR1_STOP = h I2C_CR1_STOP
         \<and> regs s' CR1 AND h I2C_CR1_POS = 0
         \<and> regs s' CR1 AND h I2C_CR1_ACK = h I2C_CR1_ACK"
    by (elim exE)
  show ?thesis
    by (rule exI [of _ s1], rule exI [of _ tr0], rule exI [of _ pre], rule exI [of _ v],
        rule exI [of _ c], rule exI [of _ post])
       (intro conjI st conjunct1 [OF t0] conjunct2 [OF t0] body [THEN conjunct1]
          body [THEN conjunct2, THEN conjunct1]
          body [THEN conjunct2, THEN conjunct2, THEN conjunct1]
          body [THEN conjunct2, THEN conjunct2, THEN conjunct2, THEN conjunct1]
          body [THEN conjunct2, THEN conjunct2, THEN conjunct2, THEN conjunct2, THEN conjunct1]
          body [THEN conjunct2, THEN conjunct2, THEN conjunct2, THEN conjunct2, THEN conjunct2])
qed

section \<open>A read that follows a timed-out wait for the bus\<close>







end
